theory Spec2Isabelle
  imports Main
begin

unbundle bit_operations_syntax

section \<open>h2sim I/O layer (h2\_io.c): data model\<close>

text \<open>
  The embedding follows \<^verbatim>\<open>src/h2sim/h2_io.c\<close>. C \<^verbatim>\<open>int\<close> fields are
  \<^typ>\<open>int\<close> (no claim below depends on overflow), byte buffers are \<^typ>\<open>string\<close>
  (lists of 8-bit characters), and a pointer that may be \<^verbatim>\<open>NULL\<close> is an
  \<^typ>\<open>'a option\<close>. Everything the C code obtains from the outside (the result of a
  \<^verbatim>\<open>send\<close>/\<^verbatim>\<open>SSL_write\<close> call, the spans handed out by the frame codec, the
  return value of a user callback) is an explicit argument or a script stored in the state.
\<close>

datatype http_ver = H2_HTTP_V2 | H2_HTTP_V1_1 | H2_HTTP_V2_TRY

datatype close_reason =
    CLOSE_BY_NONE
  | CLOSE_BY_SOCK_ERR
  | CLOSE_BY_SOCK_EOF
  | CLOSE_BY_SSL_ERR
  | CLOSE_BY_NGHTTP2_ERR
  | CLOSE_BY_NGHTTP2_END
  | CLOSE_BY_HTTP_ERR
  | CLOSE_BY_HTTP_END

text \<open>Compile-time parameters. \<^verbatim>\<open>H2_WR_BUF_SIZE\<close> and the size of the
  \<^verbatim>\<open>merge_data\<close> array are declared in \<^verbatim>\<open>h2_priv.h\<close>, which is not part of the
  sources at hand, so both are parameters.\<close>

record h2_build =
  EPOLL_MODE :: bool
  H2_WR_BUF_SIZE :: int
  sizeof_merge_data :: int

text \<open>The outcome of one \<^verbatim>\<open>send()\<close> or \<^verbatim>\<open>SSL_write()\<close> call: the returned value,
  \<^verbatim>\<open>errno\<close> afterwards, and what \<^verbatim>\<open>SSL_get_error\<close> reports.\<close>

datatype errno = EAGAIN | EWOULDBLOCK | EINTR | EOTHER

datatype ssl_error = SSL_ERROR_WANT_WRITE | SSL_ERROR_OTHER

record io_res =
  io_ret :: int
  io_errno :: errno
  io_ssl_error :: ssl_error

text \<open>Side effects on the socket, the TLS handle and the codec that leave no trace in the
  session's own fields are logged, in order, in the field \<open>effects\<close>: a call
  \<^verbatim>\<open>shutdown(fd, how)\<close> with its argument \<open>how\<close>, a call
  \<^verbatim>\<open>SSL_set_shutdown(ssl, mode)\<close> with its mode, a call \<^verbatim>\<open>SSL_shutdown(ssl)\<close>, and the
  two codec calls. The constants of \<^verbatim>\<open>sys/socket.h\<close> and \<^verbatim>\<open>openssl/ssl.h\<close> have their
  Linux and OpenSSL values.\<close>

definition SHUT_RD :: int where "SHUT_RD = 0"
definition SHUT_WR :: int where "SHUT_WR = 1"
definition SSL_SENT_SHUTDOWN :: int where "SSL_SENT_SHUTDOWN = 1"
definition SSL_RECEIVED_SHUTDOWN :: int where "SSL_RECEIVED_SHUTDOWN = 2"

datatype settings_id =
    NGHTTP2_SETTINGS_HEADER_TABLE_SIZE
  | NGHTTP2_SETTINGS_ENABLE_PUSH
  | NGHTTP2_SETTINGS_MAX_CONCURRENT_STREAMS
  | NGHTTP2_SETTINGS_INITIAL_WINDOW_SIZE
  | NGHTTP2_SETTINGS_MAX_FRAME_SIZE
  | NGHTTP2_SETTINGS_MAX_HEADER_LIST_SIZE
  | NGHTTP2_SETTINGS_ENABLE_CONNECT_PROTOCOL

datatype effect =
    Shutdown int
  | SSL_set_shutdown int
  | SSL_shutdown
  | Ng_terminate_session
  | Ng_submit_settings "(settings_id \<times> int) list"

record h2_wr_buf =
  merge_data :: string
  merge_size :: int
  mem_send_data :: "string option"
  mem_send_size :: int

record h2_read_buf =
  rb_data :: string
  data_size :: int
  data_used :: int

record h2_msg =
  msg_method :: "string option"
  msg_scheme :: "string option"
  msg_authority :: "string option"
  msg_path :: "string option"
  msg_status :: int
  msg_hdrs :: "(string \<times> string) list"
  msg_body :: string

record h2_strm =
  stream_id :: int
  response_set :: bool
  send_body_rb :: h2_read_buf
  rmsg :: h2_msg

text \<open>The frame codec is a black box: \<open>ng_mem_send\<close> is the script of the results of
  the coming \<^verbatim>\<open>nghttp2_session_mem_send\<close> calls (returned length and span; an
  exhausted script answers 0, nothing pending), \<open>ng_want_read\<close> is the answer of
  \<^verbatim>\<open>nghttp2_session_want_read\<close>.\<close>

record h2_sess =
  is_server :: bool
  ssl :: bool
  http_ver :: http_ver
  send_pending :: bool
  is_terminated :: int
  close_reason :: close_reason
  wr_buf :: h2_wr_buf
  send_data_remain :: int
  ng_mem_send :: "(int \<times> string) list"
  ng_want_read :: bool
  strm_list :: "h2_strm list"
  strm_sending :: "nat option"
  strm_recving :: "nat option"
  req_cnt :: int
  rsp_cnt :: int
  strm_close_cnt :: int
  rdata :: "string option"
  rdata_alloced :: int
  rdata_size :: int
  rdata_used :: int
  rdata_offset :: int
  rmsg_header_done :: bool
  rmsg_header_line :: int
  rmsg_content_length :: int
  effects :: "effect list"

section \<open>Session send path\<close>

definition h2_sess_mark_send_pending :: "h2_sess \<Rightarrow> h2_sess" where
  "h2_sess_mark_send_pending sess =
     (if \<not> send_pending sess then sess\<lparr>send_pending := True\<rparr> else sess)"

definition h2_sess_clear_send_pending :: "h2_sess \<Rightarrow> h2_sess" where
  "h2_sess_clear_send_pending sess =
     (if send_pending sess then sess\<lparr>send_pending := False\<rparr> else sess)"

text \<open>The streams of a session are the list \<open>strm_list\<close>, head first; a pointer to a
  stream (\<open>strm_sending\<close>, \<open>strm_recving\<close>) is the stream's position in the list.\<close>

text \<open>Modelled from the spec: \<^verbatim>\<open>h2_strm_free\<close> lives in \<^verbatim>\<open>h2_sess.c\<close>, which is
  not among the sources; by the spec a freed stream is unlinked from its session. The
  stream at position \<open>k\<close> is removed; a cursor to a later stream follows that stream, and a
  cursor to the freed stream itself is cleared.\<close>

definition shift_cursor :: "nat \<Rightarrow> nat option \<Rightarrow> nat option" where
  "shift_cursor k c =
     (case c of None \<Rightarrow> None
      | Some j \<Rightarrow> if j < k then Some j else if j = k then None else Some (j - 1))"

definition h2_strm_free :: "nat \<Rightarrow> h2_sess \<Rightarrow> h2_sess" where
  "h2_strm_free k sess =
     sess\<lparr>strm_list := take k (strm_list sess) @ drop (Suc k) (strm_list sess),
          strm_sending := shift_cursor k (strm_sending sess),
          strm_recving := shift_cursor k (strm_recving sess)\<rparr>"

subsection \<open>Writing the two regions of the write buffer\<close>

text \<open>The second half of \<^verbatim>\<open>h2_sess_send_once_v2\<close> and of
  \<^verbatim>\<open>h2_sess_send_once_v1_1\<close> is the same code, except that the HTTP/1.1 variant also
  decrements \<open>send_data_remain\<close>; the flag \<open>v1\<close> selects that. A step yields
  \<open>Inl r\<close> when the C function returns \<open>r\<close> at that point, and \<open>Inr total_sent\<close> when
  control falls through to the next statement.\<close>

definition sub_remain :: "bool \<Rightarrow> int \<Rightarrow> h2_sess \<Rightarrow> h2_sess" where
  "sub_remain v1 sent sess =
     (if v1 then sess\<lparr>send_data_remain := send_data_remain sess - sent\<rparr> else sess)"

definition merge_sent :: "bool \<Rightarrow> int \<Rightarrow> int \<Rightarrow> h2_sess \<Rightarrow> (int + int) \<times> h2_sess" where
  "merge_sent v1 total_sent sent sess0 =
     (let total_sent = total_sent + sent;
          sess = sub_remain v1 sent sess0;
          wb = wr_buf sess
      in if sent < merge_size wb then
           (Inl total_sent,
            h2_sess_mark_send_pending
              (sess\<lparr>wr_buf := wb\<lparr>merge_data :=
                                   take (nat (merge_size wb - sent)) (drop (nat sent) (merge_data wb)),
                                 merge_size := merge_size wb - sent\<rparr>\<rparr>))
         else (Inr total_sent, sess\<lparr>wr_buf := wb\<lparr>merge_size := 0\<rparr>\<rparr>))"

definition send_merge_data :: "bool \<Rightarrow> io_res \<Rightarrow> int \<Rightarrow> h2_sess \<Rightarrow> (int + int) \<times> h2_sess" where
  "send_merge_data v1 io total_sent sess =
     (let wb = wr_buf sess
      in if merge_size wb > 0 then
           (if ssl sess then
              (if io_ret io > 0 then merge_sent v1 total_sent (merge_size wb) sess
               else if io_ssl_error io = SSL_ERROR_WANT_WRITE then
                 (Inl total_sent, h2_sess_mark_send_pending sess)
               else (Inl (- 2), sess\<lparr>close_reason := CLOSE_BY_SSL_ERR\<rparr>))
            else
              (let sent = io_ret io
               in if sent \<le> 0 then
                    (if io_errno io = EAGAIN \<or> io_errno io = EWOULDBLOCK \<or> io_errno io = EINTR then
                       (Inl total_sent, h2_sess_mark_send_pending sess)
                     else (Inl (- 3), sess\<lparr>close_reason := CLOSE_BY_SOCK_ERR\<rparr>))
                  else merge_sent v1 total_sent sent sess))
         else (Inr total_sent, sess))"

definition mem_send_sent :: "bool \<Rightarrow> int \<Rightarrow> int \<Rightarrow> h2_sess \<Rightarrow> (int + int) \<times> h2_sess" where
  "mem_send_sent v1 total_sent sent sess0 =
     (let total_sent = total_sent + sent;
          sess = sub_remain v1 sent sess0;
          wb = wr_buf sess
      in if sent < mem_send_size wb then
           (Inl total_sent,
            h2_sess_mark_send_pending
              (sess\<lparr>wr_buf := wb\<lparr>mem_send_data := map_option (drop (nat sent)) (mem_send_data wb),
                                 mem_send_size := mem_send_size wb - sent\<rparr>\<rparr>))
         else (Inr total_sent, sess\<lparr>wr_buf := wb\<lparr>mem_send_data := None, mem_send_size := 0\<rparr>\<rparr>))"

definition send_mem_send_data :: "bool \<Rightarrow> io_res \<Rightarrow> int \<Rightarrow> h2_sess \<Rightarrow> (int + int) \<times> h2_sess" where
  "send_mem_send_data v1 io total_sent sess =
     (let wb = wr_buf sess
      in if mem_send_size wb \<noteq> 0 then
           (if ssl sess then
              (if io_ret io > 0 then mem_send_sent v1 total_sent (mem_send_size wb) sess
               else if io_ssl_error io = SSL_ERROR_WANT_WRITE then
                 (Inl total_sent, h2_sess_mark_send_pending sess)
               else (Inl (- 2), sess\<lparr>close_reason := CLOSE_BY_SSL_ERR\<rparr>))
            else
              (let sent = io_ret io
               in if sent \<le> 0 then
                    (if io_errno io = EAGAIN \<or> io_errno io = EWOULDBLOCK then
                       (Inl total_sent, h2_sess_mark_send_pending sess)
                     else (Inl (- 5), sess\<lparr>close_reason := CLOSE_BY_SOCK_ERR\<rparr>))
                  else mem_send_sent v1 total_sent sent sess))
         else (Inr total_sent, sess))"

text \<open>Both writes in sequence, then the clearing of the writable interest when nothing
  was sent. \<open>io1\<close> is the outcome of the write of \<open>merge_data\<close>, \<open>io2\<close> that of the
  write of \<open>mem_send_data\<close> (each used only if that write is attempted).\<close>

definition send_wr_buf :: "bool \<Rightarrow> io_res \<Rightarrow> io_res \<Rightarrow> h2_sess \<Rightarrow> (int + int) \<times> h2_sess" where
  "send_wr_buf v1 io1 io2 sess =
     (case send_merge_data v1 io1 0 sess of
        (Inl r, sess1) \<Rightarrow> (Inl r, sess1)
      | (Inr total_sent, sess1) \<Rightarrow>
          (case send_mem_send_data v1 io2 total_sent sess1 of
             (Inl r, sess2) \<Rightarrow> (Inl r, sess2)
           | (Inr total_sent, sess2) \<Rightarrow>
               (Inr total_sent,
                if total_sent = 0 then h2_sess_clear_send_pending sess2 else sess2)))"

subsection \<open>\<^verbatim>\<open>h2_sess_send_once_v2\<close>\<close>

text \<open>The loop that pulls spans from the codec. It ends with \<open>Inl (- 1)\<close> on a codec
  error (the function returns), or \<open>Inr mem_send_zero\<close>.\<close>

fun mem_send_loop ::
  "h2_build \<Rightarrow> (int \<times> string) list \<Rightarrow> h2_wr_buf \<Rightarrow> (int + bool) \<times> (int \<times> string) list \<times> h2_wr_buf"
where
  "mem_send_loop cfg [] wb =
     (if mem_send_size wb \<le> 0 \<and> merge_size wb < H2_WR_BUF_SIZE cfg
      then (Inr True, [], wb) else (Inr False, [], wb))"
| "mem_send_loop cfg ((n, d) # rest) wb =
     (if mem_send_size wb \<le> 0 \<and> merge_size wb < H2_WR_BUF_SIZE cfg then
        (if n < 0 then (Inl (- 1), rest, wb)
         else if n = 0 then (Inr True, rest, wb)
         else if merge_size wb + n \<le> sizeof_merge_data cfg then
           mem_send_loop cfg rest
             (wb\<lparr>merge_data := take (nat (merge_size wb)) (merge_data wb) @ take (nat n) d,
                 merge_size := merge_size wb + n\<rparr>)
         else (Inr False, rest, wb\<lparr>mem_send_data := Some d, mem_send_size := n\<rparr>))
      else (Inr False, (n, d) # rest, wb))"

definition h2_sess_send_once_v2 ::
  "h2_build \<Rightarrow> io_res \<Rightarrow> io_res \<Rightarrow> h2_sess \<Rightarrow> int \<times> h2_sess" where
  "h2_sess_send_once_v2 cfg io1 io2 sess =
     (case mem_send_loop cfg (ng_mem_send sess) (wr_buf sess) of
        (Inl r, script, wb) \<Rightarrow>
          (r, sess\<lparr>ng_mem_send := script, wr_buf := wb, close_reason := CLOSE_BY_NGHTTP2_ERR\<rparr>)
      | (Inr mem_send_zero, script, wb) \<Rightarrow>
          (case send_wr_buf False io1 io2 (sess\<lparr>ng_mem_send := script, wr_buf := wb\<rparr>) of
             (Inl r, sess1) \<Rightarrow> (r, sess1)
           | (Inr total_sent, sess1) \<Rightarrow>
               (if EPOLL_MODE cfg \<and> mem_send_zero \<and> \<not> ng_want_read sess1
                then (- 6, sess1\<lparr>close_reason := CLOSE_BY_NGHTTP2_END\<rparr>)
                else (total_sent, sess1))))"

subsection \<open>\<^verbatim>\<open>h2_sess_send_once_v1_1\<close>\<close>

text \<open>One round of the search for a stream with unsent body bytes. The result is
  \<open>(strm_send_data, strm_send_size)\<close> and the updated session; size 0 means that
  no stream offered data. On a server the walk starts at the head of the stream list and
  frees every answered stream whose body is sent, so the stream under inspection is always
  the head; on a client the walk moves \<open>strm_sending\<close> forward (a cursor past the
  end of the list, which the code never produces, ends the walk).\<close>

definition rb_take_all :: "h2_strm \<Rightarrow> h2_strm" where
  "rb_take_all strm =
     strm\<lparr>send_body_rb := (send_body_rb strm)\<lparr>data_used := data_size (send_body_rb strm)\<rparr>\<rparr>"

function server_flush :: "h2_sess \<Rightarrow> (string \<times> int) \<times> h2_sess" where
  "server_flush sess =
     (case strm_list sess of
        [] \<Rightarrow> (([], 0), sess)
      | strm # rest \<Rightarrow>
          if response_set strm then
            (let rb = send_body_rb strm
             in if data_used rb \<ge> data_size rb then
                  server_flush
                    ((h2_strm_free 0 sess)\<lparr>strm_close_cnt := strm_close_cnt sess + 1\<rparr>)
                else
                  ((drop (nat (data_used rb)) (rb_data rb), data_size rb - data_used rb),
                   sess\<lparr>strm_list := rb_take_all strm # rest\<rparr>))
          else (([], 0), sess))"
  by pat_completeness auto
termination
  by (relation "measure (\<lambda>sess. length (strm_list sess))") (auto simp: h2_strm_free_def)

declare server_flush.simps [simp del]

definition strm_next :: "h2_sess \<Rightarrow> nat \<Rightarrow> nat option" where
  "strm_next sess k = (if Suc k < length (strm_list sess) then Some (Suc k) else None)"

function client_walk :: "h2_sess \<Rightarrow> (string \<times> int) \<times> h2_sess" where
  "client_walk sess =
     (case strm_sending sess of
        None \<Rightarrow> (([], 0), sess)
      | Some k \<Rightarrow>
          if k < length (strm_list sess) then
            (let strm = strm_list sess ! k; rb = send_body_rb strm
             in if data_used rb \<ge> data_size rb then
                  client_walk (sess\<lparr>strm_sending := strm_next sess k\<rparr>)
                else
                  ((drop (nat (data_used rb)) (rb_data rb), data_size rb - data_used rb),
                   sess\<lparr>strm_list := (strm_list sess)[k := rb_take_all strm]\<rparr>))
          else (([], 0), sess))"
  by pat_completeness auto
termination
  by (relation "measure (\<lambda>sess. case strm_sending sess of None \<Rightarrow> 0
                                 | Some k \<Rightarrow> Suc (length (strm_list sess) - k))")
     (auto simp: strm_next_def)

declare client_walk.simps [simp del]

definition strm_pull :: "h2_sess \<Rightarrow> (string \<times> int) \<times> h2_sess" where
  "strm_pull sess =
     (if is_server sess then server_flush sess
      else client_walk
             (if strm_sending sess = None
              then sess\<lparr>strm_sending := (if strm_list sess = [] then None else Some 0)\<rparr>
              else sess))"

definition unsent :: "h2_sess \<Rightarrow> nat" where
  "unsent sess =
     length (filter (\<lambda>strm. data_used (send_body_rb strm) < data_size (send_body_rb strm))
               (strm_list sess))"

lemma server_flush_unsent:
  "server_flush sess = ((d, n), sess') \<Longrightarrow> n \<noteq> 0 \<Longrightarrow> unsent sess' < unsent sess"
proof (induction sess arbitrary: d n sess' rule: server_flush.induct)
  case (1 sess)
  show ?case
  proof (cases "strm_list sess")
    case Nil
    with "1.prems" show ?thesis by (simp add: server_flush.simps[of sess])
  next
    case (Cons strm rest)
    show ?thesis
    proof (cases "response_set strm")
      case False
      with Cons "1.prems" show ?thesis by (simp add: server_flush.simps[of sess])
    next
      case True
      show ?thesis
      proof (cases "data_used (send_body_rb strm) \<ge> data_size (send_body_rb strm)")
        case ex: True
        let ?s1 = "(h2_strm_free 0 sess)\<lparr>strm_close_cnt := strm_close_cnt sess + 1\<rparr>"
        from Cons True ex "1.prems" have "server_flush ?s1 = ((d, n), sess')"
          by (simp add: server_flush.simps[of sess])
        from "1.IH"[OF Cons True refl ex this "1.prems"(2)]
        have "unsent sess' < unsent ?s1" .
        moreover have "unsent ?s1 = unsent sess"
          using Cons ex by (simp add: unsent_def h2_strm_free_def)
        ultimately show ?thesis by simp
      next
        case nex: False
        with Cons True "1.prems" show ?thesis
          by (auto simp: server_flush.simps[of sess] unsent_def rb_take_all_def Let_def)
      qed
    qed
  qed
qed


lemma unsent_update:
  assumes "k < length xs"
    and "data_used (send_body_rb (xs ! k)) < data_size (send_body_rb (xs ! k))"
  shows "length (filter (\<lambda>strm. data_used (send_body_rb strm) < data_size (send_body_rb strm))
                   (xs[k := rb_take_all (xs ! k)]))
         < length (filter (\<lambda>strm. data_used (send_body_rb strm) < data_size (send_body_rb strm)) xs)"
  using assms
proof (induction xs arbitrary: k)
  case Nil
  then show ?case by simp
next
  case (Cons x xs)
  then show ?case
    by (cases k) (auto simp: rb_take_all_def)
qed

lemma client_walk_unsent:
  "client_walk sess = ((d, n), sess') \<Longrightarrow> n \<noteq> 0 \<Longrightarrow> unsent sess' < unsent sess"
proof (induction sess arbitrary: d n sess' rule: client_walk.induct)
  case (1 sess)
  show ?case
  proof (cases "strm_sending sess")
    case None
    with "1.prems" show ?thesis by (simp add: client_walk.simps[of sess])
  next
    case (Some k)
    show ?thesis
    proof (cases "k < length (strm_list sess)")
      case False
      with Some "1.prems" show ?thesis by (simp add: client_walk.simps[of sess])
    next
      case True
      show ?thesis
      proof (cases "data_used (send_body_rb (strm_list sess ! k))
                      \<ge> data_size (send_body_rb (strm_list sess ! k))")
        case ex: True
        let ?s1 = "sess\<lparr>strm_sending := strm_next sess k\<rparr>"
        from Some True ex "1.prems" have "client_walk ?s1 = ((d, n), sess')"
          by (simp add: client_walk.simps[of sess])
        from "1.IH"[OF Some True refl refl ex this "1.prems"(2)]
        have "unsent sess' < unsent ?s1" .
        then show ?thesis by (simp add: unsent_def)
      next
        case nex: False
        with Some True "1.prems"
        have "sess' = sess\<lparr>strm_list := (strm_list sess)[k := rb_take_all (strm_list sess ! k)]\<rparr>"
          by (auto simp: client_walk.simps[of sess] Let_def)
        with unsent_update[OF True] nex show ?thesis
          by (simp add: unsent_def)
      qed
    qed
  qed
qed

lemma strm_pull_unsent:
  "strm_pull sess = ((d, n), sess') \<Longrightarrow> n \<noteq> 0 \<Longrightarrow> unsent sess' < unsent sess"
proof (cases "is_server sess")
  case True
  then show "strm_pull sess = ((d, n), sess') \<Longrightarrow> n \<noteq> 0 \<Longrightarrow> ?thesis"
    by (simp add: strm_pull_def server_flush_unsent)
next
  case False
  assume a: "strm_pull sess = ((d, n), sess')" "n \<noteq> 0"
  let ?s0 = "if strm_sending sess = None
              then sess\<lparr>strm_sending := (if strm_list sess = [] then None else Some 0)\<rparr>
              else sess"
  from a False have "client_walk ?s0 = ((d, n), sess')"
    by (simp add: strm_pull_def)
  from client_walk_unsent[OF this a(2)] show ?thesis
    by (simp add: unsent_def split: if_splits)
qed

text \<open>The loop that fills the write buffer from the streams' send bodies.\<close>

function strm_send_loop :: "h2_build \<Rightarrow> h2_sess \<Rightarrow> h2_sess" where
  "strm_send_loop cfg sess =
     (if mem_send_size (wr_buf sess) \<le> 0 \<and> merge_size (wr_buf sess) < H2_WR_BUF_SIZE cfg then
        (case strm_pull sess of
           ((strm_send_data, strm_send_size), sess1) \<Rightarrow>
             let wb = wr_buf sess1
             in if strm_send_size = 0 then sess1
                else if merge_size wb + strm_send_size \<le> sizeof_merge_data cfg then
                  strm_send_loop cfg
                    (sess1\<lparr>wr_buf := wb\<lparr>merge_data := take (nat (merge_size wb)) (merge_data wb)
                                                         @ take (nat strm_send_size) strm_send_data,
                                        merge_size := merge_size wb + strm_send_size\<rparr>\<rparr>)
                else sess1\<lparr>wr_buf := wb\<lparr>mem_send_data := Some strm_send_data,
                                         mem_send_size := strm_send_size\<rparr>\<rparr>)
      else sess)"
  by pat_completeness auto
termination
proof (relation "measure (\<lambda>(cfg, sess). unsent sess)", goal_cases)
  case 1
  show ?case by simp
next
  case (2 cfg sess x1 sess1 strm_send_data strm_send_size wb)
  then have "unsent sess1 < unsent sess"
    using strm_pull_unsent[of sess strm_send_data strm_send_size sess1] by simp
  then show ?case by (simp add: unsent_def)
qed

declare strm_send_loop.simps [simp del]

definition h2_sess_send_once_v1_1 ::
  "h2_build \<Rightarrow> io_res \<Rightarrow> io_res \<Rightarrow> h2_sess \<Rightarrow> int \<times> h2_sess" where
  "h2_sess_send_once_v1_1 cfg io1 io2 sess =
     (case send_wr_buf True io1 io2 (strm_send_loop cfg sess) of
        (Inl r, sess1) \<Rightarrow> (r, sess1)
      | (Inr total_sent, sess1) \<Rightarrow> (total_sent, sess1))"

subsection \<open>The send-buffer invariant\<close>

definition wb_idle_or_pending :: "h2_sess \<Rightarrow> bool" where
  "wb_idle_or_pending sess =
     ((merge_size (wr_buf sess) = 0 \<and> mem_send_size (wr_buf sess) = 0) \<or> send_pending sess)"

lemma mem_send_loop_merge_nonneg:
  "mem_send_loop cfg script wb = (res, script', wb') \<Longrightarrow> 0 \<le> merge_size wb
     \<Longrightarrow> 0 \<le> merge_size wb'"
  by (induction cfg script wb rule: mem_send_loop.induct) (auto split: if_splits)

lemma mem_send_loop_Inl:
  "mem_send_loop cfg script wb = (Inl e, script', wb') \<Longrightarrow> e = - 1"
  by (induction cfg script wb rule: mem_send_loop.induct) (auto split: if_splits)

lemma server_flush_wr_buf:
  "server_flush sess = ((d, n), sess') \<Longrightarrow> wr_buf sess' = wr_buf sess \<and> 0 \<le> n"
proof (induction sess arbitrary: d n sess' rule: server_flush.induct)
  case (1 sess)
  show ?case
  proof (cases "strm_list sess")
    case Nil
    with "1.prems" show ?thesis by (auto simp: server_flush.simps[of sess])
  next
    case (Cons strm rest)
    show ?thesis
    proof (cases "response_set strm \<and> data_used (send_body_rb strm) \<ge> data_size (send_body_rb strm)")
      case True
      let ?s1 = "(h2_strm_free 0 sess)\<lparr>strm_close_cnt := strm_close_cnt sess + 1\<rparr>"
      from Cons True "1.prems" have "server_flush ?s1 = ((d, n), sess')"
        by (simp add: server_flush.simps[of sess])
      with "1.IH"[OF Cons _ refl, of d n sess'] True
      have "wr_buf sess' = wr_buf ?s1 \<and> 0 \<le> n" by simp
      then show ?thesis by (simp add: h2_strm_free_def)
    next
      case False
      with Cons "1.prems" show ?thesis
        by (auto simp: server_flush.simps[of sess] Let_def split: if_splits)
    qed
  qed
qed

lemma client_walk_wr_buf:
  "client_walk sess = ((d, n), sess') \<Longrightarrow> wr_buf sess' = wr_buf sess \<and> 0 \<le> n"
proof (induction sess arbitrary: d n sess' rule: client_walk.induct)
  case (1 sess)
  show ?case
  proof (cases "strm_sending sess")
    case None
    with "1.prems" show ?thesis by (auto simp: client_walk.simps[of sess])
  next
    case (Some k)
    show ?thesis
    proof (cases "k < length (strm_list sess) \<and> data_used (send_body_rb (strm_list sess ! k))
                      \<ge> data_size (send_body_rb (strm_list sess ! k))")
      case True
      let ?s1 = "sess\<lparr>strm_sending := strm_next sess k\<rparr>"
      from Some True "1.prems" have "client_walk ?s1 = ((d, n), sess')"
        by (simp add: client_walk.simps[of sess])
      with "1.IH"[OF Some _ refl refl, of d n sess'] True
      show ?thesis by simp
    next
      case False
      with Some "1.prems" show ?thesis
        by (auto simp: client_walk.simps[of sess] Let_def split: if_splits)
    qed
  qed
qed

lemma strm_pull_wr_buf:
  "strm_pull sess = ((d, n), sess') \<Longrightarrow> wr_buf sess' = wr_buf sess \<and> 0 \<le> n"
  by (cases "is_server sess")
     (auto simp: strm_pull_def dest: server_flush_wr_buf client_walk_wr_buf split: if_splits)

lemma strm_send_loop_merge_nonneg:
  "0 \<le> merge_size (wr_buf sess) \<Longrightarrow> 0 \<le> merge_size (wr_buf (strm_send_loop cfg sess))"
proof (induction cfg sess rule: strm_send_loop.induct)
  case (1 cfg sess)
  show ?case
  proof (cases "mem_send_size (wr_buf sess) \<le> 0 \<and> merge_size (wr_buf sess) < H2_WR_BUF_SIZE cfg")
    case False
    with "1.prems" show ?thesis by (auto simp: strm_send_loop.simps[of cfg sess])
  next
    case True
    obtain d n sess1 where p: "strm_pull sess = ((d, n), sess1)"
      by (metis prod.exhaust)
    from strm_pull_wr_buf[OF p] have w: "wr_buf sess1 = wr_buf sess" "0 \<le> n" by simp_all
    show ?thesis
    proof (cases "n \<noteq> 0 \<and> merge_size (wr_buf sess1) + n \<le> sizeof_merge_data cfg")
      case False
      with True p w "1.prems" show ?thesis
        by (auto simp: strm_send_loop.simps[of cfg sess] Let_def)
    next
      case rec: True
      from rec w "1.prems"
      have "0 \<le> merge_size (wr_buf sess1) + n" by simp
      with "1.IH"[OF True p[symmetric] refl refl] rec True p
      show ?thesis
        by (simp add: strm_send_loop.simps[of cfg sess] Let_def)
    qed
  qed
qed

lemma mark_pending [simp]:
  "send_pending (h2_sess_mark_send_pending sess)"
  "wr_buf (h2_sess_mark_send_pending sess) = wr_buf sess"
  by (simp_all add: h2_sess_mark_send_pending_def)

lemma clear_pending_wr_buf [simp]:
  "wr_buf (h2_sess_clear_send_pending sess) = wr_buf sess"
  by (simp add: h2_sess_clear_send_pending_def)

lemma sub_remain_fields [simp]:
  "wr_buf (sub_remain v1 sent sess) = wr_buf sess"
  "send_pending (sub_remain v1 sent sess) = send_pending sess"
  by (simp_all add: sub_remain_def)

lemma send_merge_data_Inl:
  "send_merge_data v1 io t sess = (Inl r, sess') \<Longrightarrow> 0 \<le> r \<Longrightarrow>
     send_pending sess' \<and> 0 \<le> merge_size (wr_buf sess') \<or> merge_size (wr_buf sess) < 0"
  by (auto simp: send_merge_data_def merge_sent_def Let_def split: if_splits)

lemma send_merge_data_Inr:
  "send_merge_data v1 io t sess = (Inr t', sess') \<Longrightarrow> 0 \<le> merge_size (wr_buf sess) \<Longrightarrow>
     merge_size (wr_buf sess') = 0 \<and> mem_send_size (wr_buf sess') = mem_send_size (wr_buf sess)"
  by (auto simp: send_merge_data_def merge_sent_def Let_def split: if_splits)

lemma send_mem_send_data_Inl:
  "send_mem_send_data v1 io t sess = (Inl r, sess') \<Longrightarrow> 0 \<le> r \<Longrightarrow>
     send_pending sess' \<and> merge_size (wr_buf sess') = merge_size (wr_buf sess)"
  by (auto simp: send_mem_send_data_def mem_send_sent_def Let_def split: if_splits)

lemma send_mem_send_data_Inr:
  "send_mem_send_data v1 io t sess = (Inr t', sess') \<Longrightarrow>
     mem_send_size (wr_buf sess') = 0 \<and> merge_size (wr_buf sess') = merge_size (wr_buf sess)"
  by (auto simp: send_mem_send_data_def mem_send_sent_def Let_def split: if_splits)

lemma send_wr_buf_Inl:
  assumes "send_wr_buf v1 io1 io2 sess = (Inl r, sess')" and "0 \<le> r"
    and "0 \<le> merge_size (wr_buf sess)"
  shows "send_pending sess' \<and> 0 \<le> merge_size (wr_buf sess')"
proof (cases "send_merge_data v1 io1 0 sess")
  case (Pair a sess1)
  show ?thesis
  proof (cases a)
    case (Inl r1)
    with Pair assms show ?thesis
      using send_merge_data_Inl[of v1 io1 0 sess r sess'] by (simp add: send_wr_buf_def)
  next
    case (Inr t1)
    with Pair assms(3) have m: "merge_size (wr_buf sess1) = 0"
      using send_merge_data_Inr[of v1 io1 0 sess t1 sess1] by simp
    obtain b sess2 where q: "send_mem_send_data v1 io2 t1 sess1 = (b, sess2)"
      by (metis prod.exhaust)
    with Pair Inr assms(1) have "b = Inl r" "sess2 = sess'"
      by (auto simp: send_wr_buf_def split: sum.splits)
    with q send_mem_send_data_Inl[of v1 io2 t1 sess1 r sess'] assms(2) m
    show ?thesis by simp
  qed
qed

lemma send_wr_buf_Inr:
  assumes "send_wr_buf v1 io1 io2 sess = (Inr t, sess')"
    and "0 \<le> merge_size (wr_buf sess)"
  shows "merge_size (wr_buf sess') = 0 \<and> mem_send_size (wr_buf sess') = 0"
proof -
  obtain a sess1 where p: "send_merge_data v1 io1 0 sess = (a, sess1)"
    by (metis prod.exhaust)
  with assms(1) obtain t1 where a: "a = Inr t1"
    by (cases a) (auto simp: send_wr_buf_def)
  obtain b sess2 where q: "send_mem_send_data v1 io2 t1 sess1 = (b, sess2)"
    by (metis prod.exhaust)
  with p a assms(1) obtain t2 where b: "b = Inr t2"
    by (cases b) (auto simp: send_wr_buf_def)
  from p a assms(2) have m: "merge_size (wr_buf sess1) = 0"
    using send_merge_data_Inr[of v1 io1 0 sess t1 sess1] by simp
  from q b have "mem_send_size (wr_buf sess2) = 0 \<and> merge_size (wr_buf sess2) = 0"
    using send_mem_send_data_Inr[of v1 io2 t1 sess1 t2 sess2] m by simp
  moreover from p a q b assms(1)
  have "wr_buf sess' = wr_buf sess2"
    by (auto simp: send_wr_buf_def split: if_splits)
  ultimately show ?thesis by simp
qed

lemma send_wr_buf_inv:
  assumes "send_wr_buf v1 io1 io2 sess = (res, sess')"
    and "0 \<le> merge_size (wr_buf sess)"
    and "case res of Inl r \<Rightarrow> 0 \<le> r | Inr t \<Rightarrow> True"
  shows "wb_idle_or_pending sess' \<and> 0 \<le> merge_size (wr_buf sess')"
proof (cases res)
  case (Inl r)
  with assms send_wr_buf_Inl[of v1 io1 io2 sess r sess'] show ?thesis
    by (simp add: wb_idle_or_pending_def)
next
  case (Inr t)
  with assms send_wr_buf_Inr[of v1 io1 io2 sess t sess'] show ?thesis
    by (simp add: wb_idle_or_pending_def)
qed

lemma send_once_v2_inv:
  assumes "0 \<le> merge_size (wr_buf sess)"
    and "h2_sess_send_once_v2 cfg io1 io2 sess = (r, sess')" and "0 \<le> r"
  shows "wb_idle_or_pending sess' \<and> 0 \<le> merge_size (wr_buf sess')"
proof -
  obtain a script wb where l: "mem_send_loop cfg (ng_mem_send sess) (wr_buf sess) = (a, script, wb)"
    by (metis prod.exhaust)
  from mem_send_loop_merge_nonneg[OF l assms(1)] have wbn: "0 \<le> merge_size wb" .
  show ?thesis
  proof (cases a)
    case (Inl e)
    with l have "e = - 1" by (simp add: mem_send_loop_Inl)
    with Inl l assms show ?thesis by (simp add: h2_sess_send_once_v2_def)
  next
    case (Inr z)
    let ?s1 = "sess\<lparr>ng_mem_send := script, wr_buf := wb\<rparr>"
    obtain res sess1 where w: "send_wr_buf False io1 io2 ?s1 = (res, sess1)"
      by (metis prod.exhaust)
    from Inr l w assms(2,3) have "(case res of Inl r \<Rightarrow> 0 \<le> r | Inr t \<Rightarrow> True)"
      by (auto simp: h2_sess_send_once_v2_def split: sum.splits if_splits)
    from send_wr_buf_inv[OF w _ this] wbn
    have "wb_idle_or_pending sess1 \<and> 0 \<le> merge_size (wr_buf sess1)" by simp
    moreover from Inr l w assms(2,3) have "sess' = sess1"
      by (auto simp: h2_sess_send_once_v2_def split: sum.splits if_splits)
    ultimately show ?thesis by simp
  qed
qed

lemma send_once_v1_1_inv:
  assumes "0 \<le> merge_size (wr_buf sess)"
    and "h2_sess_send_once_v1_1 cfg io1 io2 sess = (r, sess')" and "0 \<le> r"
  shows "wb_idle_or_pending sess' \<and> 0 \<le> merge_size (wr_buf sess')"
proof -
  obtain res sess1 where w: "send_wr_buf True io1 io2 (strm_send_loop cfg sess) = (res, sess1)"
    by (metis prod.exhaust)
  with assms(2,3) have "(case res of Inl r \<Rightarrow> 0 \<le> r | Inr t \<Rightarrow> True)" "sess' = sess1"
    by (auto simp: h2_sess_send_once_v1_1_def split: sum.splits)
  with send_wr_buf_inv[OF w strm_send_loop_merge_nonneg[OF assms(1)]] show ?thesis
    by simp
qed


text \<open>A message with nothing set, a session as \<^verbatim>\<open>calloc\<close> leaves it (every field
  zero) with the protocol version filled in, and a stream holding an unsent body.\<close>

definition msg_empty :: h2_msg where
  "msg_empty = \<lparr>msg_method = None, msg_scheme = None, msg_authority = None, msg_path = None,
                 msg_status = 0, msg_hdrs = [], msg_body = []\<rparr>"

definition sess_zero :: "http_ver \<Rightarrow> h2_sess" where
  "sess_zero v =
     \<lparr>is_server = False, ssl = False, http_ver = v, send_pending = False,
      is_terminated = 0, close_reason = CLOSE_BY_NONE,
      wr_buf = \<lparr>merge_data = [], merge_size = 0, mem_send_data = None, mem_send_size = 0\<rparr>,
      send_data_remain = 0, ng_mem_send = [], ng_want_read = True,
      strm_list = [], strm_sending = None, strm_recving = None,
      req_cnt = 0, rsp_cnt = 0, strm_close_cnt = 0,
      rdata = None, rdata_alloced = 0, rdata_size = 0, rdata_used = 0, rdata_offset = 0,
      rmsg_header_done = False, rmsg_header_line = 0, rmsg_content_length = 0,
      effects = []\<rparr>"

definition strm_of_body :: "int \<Rightarrow> string \<Rightarrow> h2_strm" where
  "strm_of_body sid body =
     \<lparr>stream_id = sid, response_set = False,
      send_body_rb = \<lparr>rb_data = body, data_size = int (length body), data_used = 0\<rparr>,
      rmsg = msg_empty\<rparr>"

text \<open>Claim C1. After a single send step (\<^verbatim>\<open>h2_sess_send_once_v2\<close> or
  \<^verbatim>\<open>h2_sess_send_once_v1_1\<close>) that returns a non-negative value, either both regions
  of the write buffer are empty or \<open>send_pending\<close> is set. This holds for every
  codec script, every stream list and every outcome of the two writes, from any session
  whose \<open>merge_size\<close> is not negative; the step keeps \<open>merge_size\<close> non-negative,
  so the statement applies again to the next step of any sequence of steps.\<close>

theorem send_once_idle_or_pending:
  assumes "0 \<le> merge_size (wr_buf sess)"
  shows "(\<forall>r sess'. h2_sess_send_once_v2 cfg io1 io2 sess = (r, sess') \<and> 0 \<le> r \<longrightarrow>
            wb_idle_or_pending sess' \<and> 0 \<le> merge_size (wr_buf sess'))
       \<and> (\<forall>r sess'. h2_sess_send_once_v1_1 cfg io1 io2 sess = (r, sess') \<and> 0 \<le> r \<longrightarrow>
            wb_idle_or_pending sess' \<and> 0 \<le> merge_size (wr_buf sess'))"
  using assms send_once_v2_inv[of sess cfg io1 io2] send_once_v1_1_inv[of sess cfg io1 io2]
  by blast

theorem send_once_idle_or_pending_witness:
  "0 \<le> merge_size (wr_buf ((sess_zero H2_HTTP_V2)\<lparr>ng_mem_send := [(3, ''abc'')]\<rparr>))
   \<and> fst (h2_sess_send_once_v2 \<lparr>EPOLL_MODE = False, H2_WR_BUF_SIZE = 16384, sizeof_merge_data = 16384\<rparr>
             \<lparr>io_ret = 2, io_errno = EOTHER, io_ssl_error = SSL_ERROR_OTHER\<rparr>
             \<lparr>io_ret = 0, io_errno = EAGAIN, io_ssl_error = SSL_ERROR_OTHER\<rparr>
             ((sess_zero H2_HTTP_V2)\<lparr>ng_mem_send := [(3, ''abc'')]\<rparr>)) = 2
   \<and> wb_idle_or_pending
        (snd (h2_sess_send_once_v2 \<lparr>EPOLL_MODE = False, H2_WR_BUF_SIZE = 16384, sizeof_merge_data = 16384\<rparr>
             \<lparr>io_ret = 2, io_errno = EOTHER, io_ssl_error = SSL_ERROR_OTHER\<rparr>
             \<lparr>io_ret = 0, io_errno = EAGAIN, io_ssl_error = SSL_ERROR_OTHER\<rparr>
             ((sess_zero H2_HTTP_V2)\<lparr>ng_mem_send := [(3, ''abc'')]\<rparr>)))
   \<and> fst (h2_sess_send_once_v1_1 \<lparr>EPOLL_MODE = False, H2_WR_BUF_SIZE = 16384, sizeof_merge_data = 16384\<rparr>
             \<lparr>io_ret = 2, io_errno = EOTHER, io_ssl_error = SSL_ERROR_OTHER\<rparr>
             \<lparr>io_ret = 0, io_errno = EAGAIN, io_ssl_error = SSL_ERROR_OTHER\<rparr>
             ((sess_zero H2_HTTP_V1_1)\<lparr>strm_list := [strm_of_body 1 ''hello'']\<rparr>)) = 2
   \<and> wb_idle_or_pending
        (snd (h2_sess_send_once_v1_1 \<lparr>EPOLL_MODE = False, H2_WR_BUF_SIZE = 16384, sizeof_merge_data = 16384\<rparr>
             \<lparr>io_ret = 2, io_errno = EOTHER, io_ssl_error = SSL_ERROR_OTHER\<rparr>
             \<lparr>io_ret = 0, io_errno = EAGAIN, io_ssl_error = SSL_ERROR_OTHER\<rparr>
             ((sess_zero H2_HTTP_V1_1)\<lparr>strm_list := [strm_of_body 1 ''hello'']\<rparr>)))"
proof -
  let ?cfg = "\<lparr>EPOLL_MODE = False, H2_WR_BUF_SIZE = 16384, sizeof_merge_data = 16384\<rparr>"
  let ?io1 = "\<lparr>io_ret = 2, io_errno = EOTHER, io_ssl_error = SSL_ERROR_OTHER\<rparr>"
  let ?io2 = "\<lparr>io_ret = 0, io_errno = EAGAIN, io_ssl_error = SSL_ERROR_OTHER\<rparr>"
  let ?s2 = "(sess_zero H2_HTTP_V2)\<lparr>ng_mem_send := [(3, ''abc'')]\<rparr>"
  let ?s1 = "(sess_zero H2_HTTP_V1_1)\<lparr>strm_list := [strm_of_body 1 ''hello'']\<rparr>"
  have h2: "0 \<le> merge_size (wr_buf ?s2)" and h1: "0 \<le> merge_size (wr_buf ?s1)"
    by (simp_all add: sess_zero_def)
  have r2: "fst (h2_sess_send_once_v2 ?cfg ?io1 ?io2 ?s2) = 2"
    by (simp add: h2_sess_send_once_v2_def sess_zero_def send_wr_buf_def send_merge_data_def
        merge_sent_def sub_remain_def h2_sess_mark_send_pending_def)
  have r1: "fst (h2_sess_send_once_v1_1 ?cfg ?io1 ?io2 ?s1) = 2"
    by (simp add: h2_sess_send_once_v1_1_def sess_zero_def send_wr_buf_def send_merge_data_def
        merge_sent_def sub_remain_def h2_sess_mark_send_pending_def strm_send_loop.simps
        strm_pull_def client_walk.simps strm_of_body_def rb_take_all_def strm_next_def)
  from send_once_idle_or_pending[OF h2, of ?cfg ?io1 ?io2] r2
  have "wb_idle_or_pending (snd (h2_sess_send_once_v2 ?cfg ?io1 ?io2 ?s2))"
    by (metis order.refl prod.collapse zero_le_numeral)
  moreover from send_once_idle_or_pending[OF h1, of ?cfg ?io1 ?io2] r1
  have "wb_idle_or_pending (snd (h2_sess_send_once_v1_1 ?cfg ?io1 ?io2 ?s1))"
    by (metis order.refl prod.collapse zero_le_numeral)
  ultimately show ?thesis using h2 r2 r1 by simp
qed

section \<open>Session termination\<close>

text \<open>\<^verbatim>\<open>h2_sess_terminate\<close>. The session pointer may be \<^verbatim>\<open>NULL\<close>; \<open>ng_ret\<close> is
  the value \<^verbatim>\<open>nghttp2_session_terminate_session\<close> returns if it is called. The
  shutdown calls and the codec call are appended to \<open>effects\<close>; the verbose log lines are
  not modelled.\<close>

definition add_effect :: "effect \<Rightarrow> h2_sess \<Rightarrow> h2_sess" where
  "add_effect e sess = sess\<lparr>effects := effects sess @ [e]\<rparr>"

definition h2_sess_terminate :: "int \<Rightarrow> h2_sess option \<Rightarrow> int \<Rightarrow> int \<times> h2_sess option" where
  "h2_sess_terminate ng_ret sess_ptr wait_rsp =
     (case sess_ptr of
        None \<Rightarrow> (1, None)
      | Some sess \<Rightarrow>
          if is_terminated sess = 1 then (1, Some sess)
          else if wait_rsp \<noteq> 0 \<and> \<not> is_server sess \<and> req_cnt sess > rsp_cnt sess then
            (let sess = sess\<lparr>is_terminated := 2\<rparr>
             in if http_ver sess = H2_HTTP_V2 then (0, Some sess)
                else if ssl sess then
                  (0, Some (add_effect SSL_shutdown
                              (add_effect (SSL_set_shutdown SSL_SENT_SHUTDOWN) sess)))
                else (0, Some (add_effect (Shutdown SHUT_WR) sess)))
          else
            (let sess = sess\<lparr>is_terminated := 1\<rparr>
             in if http_ver sess = H2_HTTP_V2 then
                  (let sess = add_effect Ng_terminate_session sess
                   in if ng_ret < 0 then (- 1, Some sess)
                      else (0, Some (h2_sess_mark_send_pending sess)))
                else if ssl sess then
                  (0, Some (h2_sess_mark_send_pending
                              (add_effect SSL_shutdown
                                 (add_effect
                                    (SSL_set_shutdown (SSL_SENT_SHUTDOWN OR SSL_RECEIVED_SHUTDOWN))
                                    sess))))
                else
                  (0, Some (h2_sess_mark_send_pending
                              (add_effect (Shutdown (SHUT_WR OR SHUT_RD)) sess)))))"

lemma terminate_state:
  assumes "h2_sess_terminate r1 (Some sess) x = (a, sess1)"
  shows "\<exists>s1. sess1 = Some s1 \<and>
           (is_terminated s1 = 1 \<longleftrightarrow>
              is_terminated sess = 1 \<or> \<not> (x \<noteq> 0 \<and> \<not> is_server sess \<and> req_cnt sess > rsp_cnt sess))
           \<and> (is_terminated s1 = 1 \<or> is_terminated s1 = 2)"
  using assms
  by (auto simp: h2_sess_terminate_def Let_def add_effect_def h2_sess_mark_send_pending_def
      split: if_splits)

lemma terminate_again:
  "(h2_sess_terminate r2 (Some s1) y = (1, Some s1)) = (is_terminated s1 = 1)"
  by (auto simp: h2_sess_terminate_def Let_def add_effect_def h2_sess_mark_send_pending_def
      split: if_splits)

text \<open>Claim C2 as stated fails: on an HTTP/1.1 client session with an outstanding request,
  \<^verbatim>\<open>terminate(1)\<close> enters state 2 (draining) and half-closes the socket; a following
  \<^verbatim>\<open>terminate(0)\<close> is then carried out in full: it returns 0, moves the session to
  state 1, sets \<open>send_pending\<close> and calls \<^verbatim>\<open>shutdown\<close> on the socket a second time (with
  \<^verbatim>\<open>SHUT_WR | SHUT_RD\<close>, which is the value of \<^verbatim>\<open>SHUT_WR\<close>).\<close>

theorem terminate_twice_counterexample:
  "fst (h2_sess_terminate 0
         (snd (h2_sess_terminate 0 (Some ((sess_zero H2_HTTP_V1_1)\<lparr>req_cnt := 1\<rparr>)) 1)) 0) = 0
   \<and> snd (h2_sess_terminate 0
         (snd (h2_sess_terminate 0 (Some ((sess_zero H2_HTTP_V1_1)\<lparr>req_cnt := 1\<rparr>)) 1)) 0)
      \<noteq> snd (h2_sess_terminate 0 (Some ((sess_zero H2_HTTP_V1_1)\<lparr>req_cnt := 1\<rparr>)) 1)
   \<and> map_option effects (snd (h2_sess_terminate 0
         (snd (h2_sess_terminate 0 (Some ((sess_zero H2_HTTP_V1_1)\<lparr>req_cnt := 1\<rparr>)) 1)) 0))
      = Some [Shutdown 1, Shutdown 1]
   \<and> map_option send_pending (snd (h2_sess_terminate 0
         (snd (h2_sess_terminate 0 (Some ((sess_zero H2_HTTP_V1_1)\<lparr>req_cnt := 1\<rparr>)) 1)) 0))
      = Some True"
  by (simp add: h2_sess_terminate_def sess_zero_def add_effect_def h2_sess_mark_send_pending_def
      SHUT_WR_def SHUT_RD_def)

text \<open>Claim C2, amended. After \<^verbatim>\<open>terminate(x)\<close>, a second call \<^verbatim>\<open>terminate(y)\<close>
  returns 1 ("already terminated") and leaves the session exactly as it was, if and only if
  the first call left the session in state 1: the session pointer is \<^verbatim>\<open>NULL\<close>, or the
  session was in state 1 before, or the first call did not take the draining branch
  (\<open>wait_rsp\<close> set on a client session with \<open>req_cnt > rsp_cnt\<close>).\<close>

theorem terminate_twice:
  assumes "h2_sess_terminate r1 sess_ptr x = (a, sess1)"
  shows "(h2_sess_terminate r2 sess1 y = (1, sess1)) =
           (case sess_ptr of None \<Rightarrow> True
            | Some sess \<Rightarrow> is_terminated sess = 1 \<or>
                \<not> (x \<noteq> 0 \<and> \<not> is_server sess \<and> req_cnt sess > rsp_cnt sess))"
proof (cases sess_ptr)
  case None
  with assms show ?thesis by (simp add: h2_sess_terminate_def)
next
  case (Some sess)
  with assms terminate_state[of r1 sess x a sess1] obtain s1 where
    "sess1 = Some s1"
    "is_terminated s1 = 1 \<longleftrightarrow>
       is_terminated sess = 1 \<or> \<not> (x \<noteq> 0 \<and> \<not> is_server sess \<and> req_cnt sess > rsp_cnt sess)"
    by auto
  with Some terminate_again[of r2 s1 y] show ?thesis by simp
qed


theorem terminate_twice_witness:
  "h2_sess_terminate 0 (snd (h2_sess_terminate 0 (Some (sess_zero H2_HTTP_V1_1)) 0)) 1
     = (1, snd (h2_sess_terminate 0 (Some (sess_zero H2_HTTP_V1_1)) 0))
   \<and> fst (h2_sess_terminate 0 (Some (sess_zero H2_HTTP_V1_1)) 0) = 0"
proof -
  have h: "h2_sess_terminate 0 (Some (sess_zero H2_HTTP_V1_1)) 0
             = (fst (h2_sess_terminate 0 (Some (sess_zero H2_HTTP_V1_1)) 0),
                snd (h2_sess_terminate 0 (Some (sess_zero H2_HTTP_V1_1)) 0))"
    by simp
  have "fst (h2_sess_terminate 0 (Some (sess_zero H2_HTTP_V1_1)) 0) = 0"
    by (simp add: h2_sess_terminate_def sess_zero_def)
  with terminate_twice[OF h, of 0 1] show ?thesis
    by (simp add: sess_zero_def)
qed

section \<open>HTTP/1.1 receive path\<close>

subsection \<open>Bytes, slices and the C library\<close>

definition LF :: char where "LF = CHR 0x0A"
definition CR :: char where "CR = CHR 0x0D"

text \<open>The test \<^verbatim>\<open>c == ' ' || c == '\t'\<close> that the parser uses for whitespace.\<close>

definition is_sp :: "char \<Rightarrow> bool" where
  "is_sp c = (c = CHR '' '' \<or> c = CHR 0x09)"

definition is_digit :: "char \<Rightarrow> bool" where
  "is_digit c = (48 \<le> (of_char c :: nat) \<and> (of_char c :: nat) \<le> 57)"

definition digit_val :: "char \<Rightarrow> int" where
  "digit_val c = int (of_char c) - 48"

text \<open>The bytes at positions \<open>b \<le> i < e\<close> of a buffer.\<close>

definition slice :: "string \<Rightarrow> nat \<Rightarrow> nat \<Rightarrow> string" where
  "slice buf b e = take (e - b) (drop b buf)"

text \<open>\<^verbatim>\<open>memchr(buf + p, c, limit - p)\<close>, as a position.\<close>

function memchr :: "string \<Rightarrow> nat \<Rightarrow> nat \<Rightarrow> char \<Rightarrow> nat option" where
  "memchr buf p limit c =
     (if p < limit then (if buf ! p = c then Some p else memchr buf (Suc p) limit c) else None)"
  by pat_completeness auto
termination
  by (relation "measure (\<lambda>(buf, p, limit, c). limit - p)") auto

declare memchr.simps [simp del]

text \<open>\<^verbatim>\<open>tolower\<close> in the C locale, and \<^verbatim>\<open>strncasecmp(name, lit, n) == 0\<close> for a name
  of exactly \<open>n\<close> bytes and a lower-case literal of \<open>n\<close> bytes.\<close>

definition c_tolower :: "char \<Rightarrow> char" where
  "c_tolower c =
     (case map_of (zip ''ABCDEFGHIJKLMNOPQRSTUVWXYZ'' ''abcdefghijklmnopqrstuvwxyz'') c of
        None \<Rightarrow> c
      | Some l \<Rightarrow> l)"

definition strncasecmp_eq :: "string \<Rightarrow> string \<Rightarrow> bool" where
  "strncasecmp_eq name lit = (map c_tolower name = map c_tolower lit)"

text \<open>\<^verbatim>\<open>atoi\<close> of the C library, reading from a position of the buffer: white space is
  skipped, an optional sign is read, then decimal digits up to the first other byte. The
  end of the buffer ends the number (the C function reads on to a NUL byte). The result
  is a C \<^verbatim>\<open>int\<close>: as in the GNU C library on a 64-bit system, \<^verbatim>\<open>atoi(s)\<close> is
  \<^verbatim>\<open>(int) strtol(s, NULL, 10)\<close>, where \<^verbatim>\<open>strtol\<close> saturates at the bounds of a 64-bit
  \<^verbatim>\<open>long\<close> and the conversion to \<^verbatim>\<open>int\<close> keeps the low 32 bits. (The C standard leaves
  the result undefined when the number is not representable.)\<close>

definition c_isspace :: "char \<Rightarrow> bool" where
  "c_isspace c = ((of_char c :: nat) = 32 \<or> (9 \<le> (of_char c :: nat) \<and> (of_char c :: nat) \<le> 13))"

definition digits_val :: "string \<Rightarrow> int" where
  "digits_val s = foldl (\<lambda>a c. 10 * a + digit_val c) 0 (takeWhile is_digit s)"

definition long_saturate :: "int \<Rightarrow> int" where
  "long_saturate x = max (- (2 ^ 63)) (min (2 ^ 63 - 1) x)"

definition to_int32 :: "int \<Rightarrow> int" where
  "to_int32 x = (x + 2 ^ 31) mod 2 ^ 32 - 2 ^ 31"

definition strtol :: "string \<Rightarrow> int" where
  "strtol s =
     long_saturate
       (case dropWhile c_isspace s of
          [] \<Rightarrow> 0
        | c # r \<Rightarrow> if c = CHR ''-'' then - digits_val r
                   else if c = CHR ''+'' then digits_val r
                   else digits_val (c # r))"

definition atoi :: "string \<Rightarrow> int" where
  "atoi s = to_int32 (strtol s)"

subsection \<open>Message helpers\<close>

text \<open>Modelled from the spec: the message helpers (\<^verbatim>\<open>h2_set_method_n\<close>,
  \<^verbatim>\<open>h2_set_scheme\<close>, \<^verbatim>\<open>h2_set_authority\<close> and \<^verbatim>\<open>h2_set_authority_n\<close>,
  \<^verbatim>\<open>h2_set_path_n\<close>, \<^verbatim>\<open>h2_set_status\<close>,
  \<^verbatim>\<open>h2_add_hdr_n\<close>, \<^verbatim>\<open>h2_cpy_body\<close>, \<^verbatim>\<open>h2_body_len\<close>) live in \<^verbatim>\<open>h2_msg.c\<close>,
  which is not among the sources. By the spec a message maps each pseudo-header name to a
  single value and holds an ordered sequence of (name, value) pairs and a body: a setter
  stores the value, \<^verbatim>\<open>h2_add_hdr_n\<close> appends a pair, \<^verbatim>\<open>h2_cpy_body\<close> stores the
  body bytes.\<close>

definition h2_set_method_n :: "h2_msg \<Rightarrow> string \<Rightarrow> h2_msg" where
  "h2_set_method_n m v = m\<lparr>msg_method := Some v\<rparr>"

definition h2_set_scheme :: "h2_msg \<Rightarrow> string \<Rightarrow> h2_msg" where
  "h2_set_scheme m v = m\<lparr>msg_scheme := Some v\<rparr>"

definition h2_set_authority :: "h2_msg \<Rightarrow> string \<Rightarrow> h2_msg" where
  "h2_set_authority m v = m\<lparr>msg_authority := Some v\<rparr>"

definition h2_set_path_n :: "h2_msg \<Rightarrow> string \<Rightarrow> h2_msg" where
  "h2_set_path_n m v = m\<lparr>msg_path := Some v\<rparr>"

definition h2_set_status :: "h2_msg \<Rightarrow> int \<Rightarrow> h2_msg" where
  "h2_set_status m v = m\<lparr>msg_status := v\<rparr>"

definition h2_add_hdr_n :: "h2_msg \<Rightarrow> string \<Rightarrow> string \<Rightarrow> h2_msg" where
  "h2_add_hdr_n m name v = m\<lparr>msg_hdrs := msg_hdrs m @ [(name, v)]\<rparr>"

definition h2_cpy_body :: "h2_msg \<Rightarrow> string \<Rightarrow> h2_msg" where
  "h2_cpy_body m v = m\<lparr>msg_body := v\<rparr>"

definition h2_body_len :: "h2_msg \<Rightarrow> int" where
  "h2_body_len m = int (length (msg_body m))"

subsection \<open>Parsing one line\<close>

text \<open>The parser works with pointers \<open>base \<le> end\<close> into \<open>rdata\<close>; here they are
  positions in the buffer \<open>buf\<close>. The two scanning loops:
  \<^verbatim>\<open>for (; q < end && P(*q); q++)\<close> and
  \<^verbatim>\<open>while (end > lo && is_sp(*(end - 1))) end--\<close>.\<close>

function skip_while :: "(char \<Rightarrow> bool) \<Rightarrow> string \<Rightarrow> nat \<Rightarrow> nat \<Rightarrow> nat" where
  "skip_while P buf q e =
     (if q < e \<and> P (buf ! q) then skip_while P buf (Suc q) e else q)"
  by pat_completeness auto
termination
  by (relation "measure (\<lambda>(P, buf, q, e). e - q)") auto

declare skip_while.simps [simp del]

function trim_back :: "string \<Rightarrow> nat \<Rightarrow> nat \<Rightarrow> nat" where
  "trim_back buf lo e =
     (if e > lo \<and> is_sp (buf ! (e - 1)) then trim_back buf lo (e - 1) else e)"
  by pat_completeness auto
termination
  by (relation "measure (\<lambda>(buf, lo, e). e)") auto

declare trim_back.simps [simp del]

text \<open>The Request-Line of a server session. The result is \<open>Some r\<close> when the parser
  returns \<open>r\<close> (a parse error), \<open>None\<close> when it goes on. The loop condition
  \<^verbatim>\<open>end >= base + 1 + 1 + 1\<close> is \<open>end > base + 2\<close>.\<close>

definition parse_request_line :: "bool \<Rightarrow> string \<Rightarrow> nat \<Rightarrow> nat \<Rightarrow> h2_msg \<Rightarrow> int option \<times> h2_msg" where
  "parse_request_line tls buf base e rm =
     (if e \<ge> base + 1 + 1 + 1 + 1 + 8 \<and> slice buf (e - 8) e = ''HTTP/1.1'' then
        (let e = e - 8;
             e = trim_back buf (base + 2) e;
             q = skip_while (\<lambda>c. \<not> is_sp c) buf base e;
             rm = h2_set_method_n rm (slice buf base q);
             rm = h2_set_scheme rm (if tls then ''https'' else ''http'');
             rm = h2_set_authority rm ''http'';
             q = skip_while is_sp buf q e
         in (None, h2_set_path_n rm (slice buf q e)))
      else (Some (- 1), rm))"

text \<open>The Status-Line of a client session.\<close>

definition parse_status_line :: "string \<Rightarrow> nat \<Rightarrow> nat \<Rightarrow> h2_msg \<Rightarrow> int option \<times> h2_msg" where
  "parse_status_line buf base e rm =
     (let q = base
      in if int e - int base \<ge> 3 \<and>
            49 \<le> (of_char (buf ! q) :: nat) \<and> (of_char (buf ! q) :: nat) \<le> 53 \<and>
            48 \<le> (of_char (buf ! (q + 1)) :: nat) \<and> (of_char (buf ! (q + 1)) :: nat) \<le> 57 \<and>
            48 \<le> (of_char (buf ! (q + 2)) :: nat) \<and> (of_char (buf ! (q + 2)) :: nat) \<le> 57 \<and>
            (int e - int base \<le> 3 \<or> (buf ! (q + 3) = CHR '' '' \<or> buf ! (q + 3) = CHR 0x09))
         then (None, h2_set_status rm
                       (digit_val (buf ! q) * 100 + digit_val (buf ! (q + 1)) * 10
                        + digit_val (buf ! (q + 2)) * 1))
         else (Some (- 2), rm))"

text \<open>A message-header line. The state that a line can change is the message and
  \<open>rmsg_content_length\<close>.\<close>

definition parse_message_header ::
  "bool \<Rightarrow> string \<Rightarrow> nat \<Rightarrow> nat \<Rightarrow> h2_msg \<times> int \<Rightarrow> int option \<times> h2_msg \<times> int" where
  "parse_message_header server buf base e st =
     (case memchr buf base e (CHR '':'') of
        Some q \<Rightarrow>
          (let name = slice buf base q;
               nlen = q - base;
               v = skip_while is_sp buf (q + 1) e;
               e = trim_back buf v e
           in if nlen = 4 \<and> strncasecmp_eq name ''host'' \<and> server then
                (None, h2_set_authority (fst st) (slice buf v e), snd st)
              else if nlen = 14 \<and> strncasecmp_eq name ''content-length'' then
                (None, fst st, atoi (drop v buf))
              else (None, h2_add_hdr_n (fst st) name (slice buf v e), snd st))
      | None \<Rightarrow> (Some (- 3), st))"

subsection \<open>The scanning loops on lists\<close>

definition rtrim :: "string \<Rightarrow> string" where
  "rtrim s = rev (dropWhile is_sp (rev s))"

lemma slice_nth: "i < e - b \<Longrightarrow> e \<le> length buf \<Longrightarrow> slice buf b e ! i = buf ! (b + i)"
  by (simp add: slice_def)

lemma length_slice: "e \<le> length buf \<Longrightarrow> length (slice buf b e) = e - b"
  by (simp add: slice_def)

lemma slice_Cons: "b < e \<Longrightarrow> e \<le> length buf \<Longrightarrow> slice buf b e = buf ! b # slice buf (Suc b) e"
proof -
  assume a: "b < e" "e \<le> length buf"
  then have d: "drop b buf = buf ! b # drop (Suc b) buf"
    by (simp add: Cons_nth_drop_Suc)
  from a have "e - b = Suc (e - Suc b)" by simp
  then show ?thesis unfolding slice_def d by simp
qed

lemma slice_empty [simp]: "e \<le> b \<Longrightarrow> slice buf b e = []"
  by (simp add: slice_def)

lemma slice_append: "b \<le> m \<Longrightarrow> m \<le> e \<Longrightarrow> slice buf b m @ slice buf m e = slice buf b e"
proof -
  assume a: "b \<le> m" "m \<le> e"
  have "take (m - b) (drop b buf) @ take (e - m) (drop (m - b) (drop b buf))
        = take ((m - b) + (e - m)) (drop b buf)"
    by (simp add: take_add)
  with a show ?thesis by (simp add: slice_def)
qed

lemma slice_snoc:
  "b < e \<Longrightarrow> e \<le> length buf \<Longrightarrow> slice buf b e = slice buf b (e - 1) @ [buf ! (e - 1)]"
proof -
  assume a: "b < e" "e \<le> length buf"
  then have "slice buf (e - 1) e = [buf ! (e - 1)]"
    using slice_Cons[of "e - 1" e buf] by simp
  with slice_append[of b "e - 1" e buf] a show ?thesis by simp
qed

lemma skip_while_takeWhile:
  "q \<le> e \<Longrightarrow> e \<le> length buf \<Longrightarrow>
     skip_while P buf q e = q + length (takeWhile P (slice buf q e))"
proof (induction P buf q e rule: skip_while.induct)
  case (1 P buf q e)
  show ?case
  proof (cases "q < e")
    case False
    then show ?thesis by (simp add: skip_while.simps[of P buf q e])
  next
    case True
    with "1.prems" have c: "slice buf q e = buf ! q # slice buf (Suc q) e"
      by (simp add: slice_Cons)
    show ?thesis
    proof (cases "P (buf ! q)")
      case False
      with c show ?thesis by (simp add: skip_while.simps[of P buf q e])
    next
      case p: True
      with True "1.IH" "1.prems" c show ?thesis
        by (simp add: skip_while.simps[of P buf q e])
    qed
  qed
qed

lemma skip_while_bounds:
  "q \<le> e \<Longrightarrow> q \<le> skip_while P buf q e \<and> skip_while P buf q e \<le> e"
proof (induction P buf q e rule: skip_while.induct)
  case (1 P buf q e)
  then show ?case
    by (cases "q < e \<and> P (buf ! q)") (auto simp: skip_while.simps[of P buf q e])
qed

lemma slice_skip_while:
  assumes "q \<le> e" "e \<le> length buf"
  shows "slice buf q (skip_while P buf q e) = takeWhile P (slice buf q e)"
    and "slice buf (skip_while P buf q e) e = dropWhile P (slice buf q e)"
proof -
  let ?k = "length (takeWhile P (slice buf q e))"
  have k: "skip_while P buf q e = q + ?k" using assms by (rule skip_while_takeWhile)
  have le: "?k \<le> e - q"
    using length_takeWhile_le[of P "slice buf q e"] assms by (simp add: length_slice)
  have "slice buf q (q + ?k) = take ?k (slice buf q e)"
    using le by (simp add: slice_def min_def)
  moreover have "takeWhile P (slice buf q e) = take ?k (slice buf q e)"
    by (rule takeWhile_eq_take)
  ultimately show "slice buf q (skip_while P buf q e) = takeWhile P (slice buf q e)"
    unfolding k by simp
  have "slice buf (q + ?k) e = drop ?k (slice buf q e)"
    by (simp add: slice_def drop_take add.commute)
  moreover have "dropWhile P (slice buf q e) = drop ?k (slice buf q e)"
    by (rule dropWhile_eq_drop)
  ultimately show "slice buf (skip_while P buf q e) e = dropWhile P (slice buf q e)"
    unfolding k by simp
qed

lemma trim_back_rtrim:
  "lo \<le> e \<Longrightarrow> e \<le> length buf \<Longrightarrow>
     trim_back buf lo e = lo + length (rtrim (slice buf lo e))"
proof (induction buf lo e rule: trim_back.induct)
  case (1 buf lo e)
  show ?case
  proof (cases "e > lo")
    case False
    with "1.prems" have "lo = e" by simp
    then show ?thesis by (subst trim_back.simps) (simp add: rtrim_def)
  next
    case True
    with "1.prems" have c: "slice buf lo e = slice buf lo (e - 1) @ [buf ! (e - 1)]"
      by (simp add: slice_snoc)
    show ?thesis
    proof (cases "is_sp (buf ! (e - 1))")
      case False
      with c True "1.prems" show ?thesis
        by (simp add: trim_back.simps[of buf lo e] rtrim_def length_slice)
    next
      case p: True
      with True "1.IH" "1.prems" c show ?thesis
        by (simp add: trim_back.simps[of buf lo e] rtrim_def)
    qed
  qed
qed

lemma trim_back_bounds:
  "lo \<le> e \<Longrightarrow> lo \<le> trim_back buf lo e \<and> trim_back buf lo e \<le> e"
proof (induction buf lo e rule: trim_back.induct)
  case (1 buf lo e)
  show ?case
  proof (cases "e > lo \<and> is_sp (buf ! (e - 1))")
    case True
    then have "lo \<le> e - 1" by auto
    with "1.IH" True have "lo \<le> trim_back buf lo (e - 1) \<and> trim_back buf lo (e - 1) \<le> e - 1"
      by simp
    moreover have "trim_back buf lo e = trim_back buf lo (e - 1)"
      using True by (subst trim_back.simps) simp
    ultimately show ?thesis by auto
  next
    case False
    then have "trim_back buf lo e = e"
      by (subst trim_back.simps) auto
    with "1.prems" show ?thesis by simp
  qed
qed

lemma length_rtrim_le: "length (rtrim s) \<le> length s"
  by (simp add: rtrim_def length_dropWhile_le[of is_sp "rev s", simplified])

lemma rtrim_take: "rtrim s = take (length (rtrim s)) s"
proof -
  have "rev s = takeWhile is_sp (rev s) @ dropWhile is_sp (rev s)" by simp
  then have "s = rev (dropWhile is_sp (rev s)) @ rev (takeWhile is_sp (rev s))"
    by (metis rev_append rev_rev_ident)
  then have "s = rtrim s @ rev (takeWhile is_sp (rev s))" by (simp add: rtrim_def)
  then show ?thesis by (metis append_eq_conv_conj)
qed

lemma slice_trim_back:
  assumes "lo \<le> e" "e \<le> length buf"
  shows "slice buf lo (trim_back buf lo e) = rtrim (slice buf lo e)"
proof -
  let ?k = "length (rtrim (slice buf lo e))"
  have k: "trim_back buf lo e = lo + ?k" using assms by (rule trim_back_rtrim)
  have "?k \<le> e - lo" using length_rtrim_le[of "slice buf lo e"] assms by (simp add: length_slice)
  then have "slice buf lo (lo + ?k) = take ?k (slice buf lo e)"
    by (simp add: slice_def min_def)
  with k rtrim_take[of "slice buf lo e"] show ?thesis by simp
qed

lemma memchr_find:
  "p \<le> e \<Longrightarrow> e \<le> length buf \<Longrightarrow>
     memchr buf p e c =
       (if c \<in> set (slice buf p e) then Some (p + length (takeWhile (\<lambda>x. x \<noteq> c) (slice buf p e)))
        else None)"
proof (induction buf p e c rule: memchr.induct)
  case (1 buf p limit c)
  show ?case
  proof (cases "p < limit")
    case False
    then show ?thesis by (simp add: memchr.simps[of buf p limit c])
  next
    case True
    with "1.prems" have c: "slice buf p limit = buf ! p # slice buf (Suc p) limit"
      by (simp add: slice_Cons)
    show ?thesis
    proof (cases "buf ! p = c")
      case True
      with c \<open>p < limit\<close> show ?thesis by (simp add: memchr.simps[of buf p limit c])
    next
      case False
      with True "1.IH" "1.prems" c show ?thesis
        by (auto simp: memchr.simps[of buf p limit c])
    qed
  qed
qed

subsection \<open>The first line\<close>

lemma is_digit_set: "is_digit c \<longleftrightarrow> c \<in> set ''0123456789''"
proof -
  have "is_digit c \<longleftrightarrow> (of_char c :: nat) \<in> {48, 49, 50, 51, 52, 53, 54, 55, 56, 57}"
  proof -
    have "{48..57} = {48, 49, 50, 51, 52, 53, 54, 55, 56, 57::nat}"
      by (simp add: atLeastAtMost_insertL[symmetric] del: atLeastAtMost_iff)
    then show ?thesis unfolding is_digit_def by (metis atLeastAtMost_iff)
  qed
  also have "\<dots> \<longleftrightarrow> (of_char c :: nat) \<in> of_char ` set ''0123456789''"
    by simp
  also have "\<dots> \<longleftrightarrow> c \<in> set ''0123456789''"
    by (rule inj_image_mem_iff) (simp add: inj_on_def)
  finally show ?thesis .
qed

lemma digit15_set:
  "49 \<le> (of_char c :: nat) \<and> (of_char c :: nat) \<le> 53 \<longleftrightarrow> c \<in> set ''12345''"
proof -
  have "49 \<le> (of_char c :: nat) \<and> (of_char c :: nat) \<le> 53
          \<longleftrightarrow> (of_char c :: nat) \<in> {49, 50, 51, 52, 53}"
  proof -
    have "{49..53} = {49, 50, 51, 52, 53::nat}"
      by (simp add: atLeastAtMost_insertL[symmetric] del: atLeastAtMost_iff)
    then show ?thesis by (metis atLeastAtMost_iff)
  qed
  also have "\<dots> \<longleftrightarrow> (of_char c :: nat) \<in> of_char ` set ''12345''"
    by simp
  also have "\<dots> \<longleftrightarrow> c \<in> set ''12345''"
    by (rule inj_image_mem_iff) (simp add: inj_on_def)
  finally show ?thesis .
qed

text \<open>The status-line branch on the line at positions \<open>base \<le> i < e\<close>, in terms of
  the line.\<close>

lemma status_line_parse:
  assumes "base \<le> e" and "e \<le> length buf"
  shows "parse_status_line buf base e rm =
     (let line = slice buf base e
      in if 3 \<le> length line \<and> line ! 0 \<in> set ''12345'' \<and> line ! 1 \<in> set ''0123456789''
            \<and> line ! 2 \<in> set ''0123456789'' \<and> (length line = 3 \<or> is_sp (line ! 3))
         then (None, rm\<lparr>msg_status := 100 * digit_val (line ! 0) + 10 * digit_val (line ! 1)
                                         + digit_val (line ! 2)\<rparr>)
         else (Some (- 2), rm))"
proof (cases "3 \<le> e - base")
  case False
  with assms have "\<not> 3 \<le> int e - int base" by auto
  with False assms show ?thesis
    by (simp add: parse_status_line_def length_slice Let_def)
next
  case True
  with assms have n: "slice buf base e ! 0 = buf ! base" "slice buf base e ! 1 = buf ! (base + 1)"
    "slice buf base e ! 2 = buf ! (base + 2)"
    by (simp_all add: slice_nth)
  have n3: "e - base \<noteq> 3 \<Longrightarrow> slice buf base e ! 3 = buf ! (base + 3)"
    using True assms by (simp add: slice_nth)
  have l: "length (slice buf base e) = e - base" using assms by (simp add: length_slice)
  have c: "(int e - int base \<ge> 3) = True" "(int e - int base \<le> 3) = (e - base = 3)"
    using True assms by auto
  have d: "\<And>c. c \<in> set ''0123456789'' \<longleftrightarrow> 48 \<le> (of_char c :: nat) \<and> (of_char c :: nat) \<le> 57"
    using is_digit_set by (simp only: is_digit_def)
  show ?thesis
  proof (cases "e - base = 3")
    case e3: True
    show ?thesis
      unfolding parse_status_line_def Let_def c l n d digit15_set[symmetric] h2_set_status_def
      using e3 by simp
  next
    case e4: False
    show ?thesis
      unfolding parse_status_line_def Let_def c l n n3[OF e4] d digit15_set[symmetric]
        h2_set_status_def is_sp_def
      using e4 True by simp
  qed
qed


lemma rtrim_append:
  "rtrim (u @ v) = (if rtrim v = [] then rtrim u else u @ rtrim v)"
  by (auto simp: rtrim_def dropWhile_append)

lemma short_cases:
  assumes "length u \<le> 2"
  shows "u = [] \<or> (\<exists>a. u = [a]) \<or> (\<exists>a b. u = [a, b])"
proof (cases u)
  case Nil
  then show ?thesis by simp
next
  case (Cons a us)
  with assms have "length us \<le> 1" by simp
  then have "us = [] \<or> (\<exists>b. us = [b])"
    by (cases us) auto
  with Cons show ?thesis by auto
qed

lemma rtrim_short_method:
  "length u \<le> 2 \<Longrightarrow> takeWhile (\<lambda>c. \<not> is_sp c) u = takeWhile (\<lambda>c. \<not> is_sp c) (rtrim u)"
  using short_cases[of u] by (auto simp: rtrim_def)

lemma rtrim_short_path:
  "length u \<le> 2 \<Longrightarrow> dropWhile is_sp (dropWhile (\<lambda>c. \<not> is_sp c) u)
     = dropWhile is_sp (dropWhile (\<lambda>c. \<not> is_sp c) (rtrim u))"
  using short_cases[of u] by (auto simp: rtrim_def)


lemma keep2_trim:
  fixes s :: string
  defines "s' \<equiv> take 2 s @ rtrim (drop 2 s)"
  shows "takeWhile (\<lambda>c. \<not> is_sp c) s' = takeWhile (\<lambda>c. \<not> is_sp c) (rtrim s)"
    and "dropWhile is_sp (dropWhile (\<lambda>c. \<not> is_sp c) s')
           = dropWhile is_sp (dropWhile (\<lambda>c. \<not> is_sp c) (rtrim s))"
proof -
  have r: "rtrim s = (if rtrim (drop 2 s) = [] then rtrim (take 2 s) else s')"
    using rtrim_append[of "take 2 s" "drop 2 s"] by (simp add: s'_def)
  have l: "length (take 2 s) \<le> 2" by simp
  show "takeWhile (\<lambda>c. \<not> is_sp c) s' = takeWhile (\<lambda>c. \<not> is_sp c) (rtrim s)"
  proof (cases "rtrim (drop 2 s) = []")
    case True
    with r rtrim_short_method[OF l] show ?thesis by (simp add: s'_def)
  next
    case False
    with r show ?thesis by simp
  qed
  show "dropWhile is_sp (dropWhile (\<lambda>c. \<not> is_sp c) s')
           = dropWhile is_sp (dropWhile (\<lambda>c. \<not> is_sp c) (rtrim s))"
  proof (cases "rtrim (drop 2 s) = []")
    case True
    with r rtrim_short_path[OF l] show ?thesis by (simp add: s'_def)
  next
    case False
    with r show ?thesis by simp
  qed
qed

lemma slice_slice_take:
  "b \<le> m \<Longrightarrow> m \<le> e \<Longrightarrow> slice buf b m = take (m - b) (slice buf b e)"
  by (simp add: slice_def min_def)

lemma slice_slice_drop:
  "b \<le> m \<Longrightarrow> slice buf m e = drop (m - b) (slice buf b e)"
  by (simp add: slice_def drop_take)

text \<open>The request-line branch on the line at positions \<open>base \<le> i < e\<close>, in terms of
  the line. The code stops stripping white space when two bytes are left; the method and
  the path are the same as with full stripping.\<close>

lemma request_line_parse:
  assumes "base \<le> e" and "e \<le> length buf"
  shows "parse_request_line tls buf base e rm =
     (let line = slice buf base e
      in if 12 \<le> length line \<and> drop (length line - 8) line = ''HTTP/1.1'' then
           (let req = rtrim (take (length line - 8) line)
            in (None, rm\<lparr>msg_method := Some (takeWhile (\<lambda>c. \<not> is_sp c) req),
                         msg_scheme := Some (if tls then ''https'' else ''http''),
                         msg_authority := Some ''http'',
                         msg_path := Some (dropWhile is_sp (dropWhile (\<lambda>c. \<not> is_sp c) req))\<rparr>))
         else (Some (- 1), rm))"
proof -
  let ?line = "slice buf base e"
  let ?nsp = "\<lambda>c. \<not> is_sp c"
  have len: "length ?line = e - base" using assms by (simp add: length_slice)
  show ?thesis
  proof (cases "12 \<le> e - base")
    case False
    then have "\<not> e \<ge> base + 1 + 1 + 1 + 1 + 8" by simp
    with False len show ?thesis by (simp add: parse_request_line_def Let_def)
  next
    case True
    then have ge: "e \<ge> base + 1 + 1 + 1 + 1 + 8" by simp
    from True have b8: "base \<le> e - 8" "e - 8 \<le> e" "base + 2 \<le> e - 8" by simp_all
    have suf: "slice buf (e - 8) e = drop (length ?line - 8) ?line"
    proof -
      have "e - 8 - base = e - base - 8" by simp
      with slice_slice_drop[OF b8(1), of buf e] len show ?thesis by simp
    qed
    show ?thesis
    proof (cases "slice buf (e - 8) e = ''HTTP/1.1''")
      case False
      with suf show ?thesis by (simp add: parse_request_line_def Let_def)
    next
      case ok: True
      define s where "s = slice buf base (e - 8)"
      define e2 where "e2 = trim_back buf (base + 2) (e - 8)"
      define q where "q = skip_while ?nsp buf base e2"
      define q2 where "q2 = skip_while is_sp buf q e2"
      have s_take: "s = take (length ?line - 8) ?line"
        using slice_slice_take[OF b8(1,2), of buf] len by (simp add: s_def add.commute)
      have e1len: "e - 8 \<le> length buf" using assms by simp
      have e2b: "base + 2 \<le> e2" "e2 \<le> e - 8"
        using trim_back_bounds[OF b8(3), of buf] by (simp_all add: e2_def)
      then have e2len: "e2 \<le> length buf" "base \<le> e2" using e1len by simp_all
      have "slice buf base e2 = slice buf base (base + 2) @ slice buf (base + 2) e2"
        using slice_append[of base "base + 2" e2 buf] e2b by simp
      also have "slice buf (base + 2) e2 = rtrim (slice buf (base + 2) (e - 8))"
        unfolding e2_def by (rule slice_trim_back[OF b8(3) e1len])
      also have "slice buf (base + 2) (e - 8) = drop 2 s"
        using slice_slice_drop[of base "base + 2" buf "e - 8"] by (simp add: s_def)
      also have "slice buf base (base + 2) = take 2 s"
        using slice_slice_take[of base "base + 2" "e - 8" buf] b8 by (simp add: s_def)
      finally have s': "slice buf base e2 = take 2 s @ rtrim (drop 2 s)" .
      have m: "slice buf base q = takeWhile ?nsp (slice buf base e2)"
        unfolding q_def by (rule slice_skip_while(1)[OF e2len(2,1)])
      have qb: "base \<le> q" "q \<le> e2"
        using skip_while_bounds[OF e2len(2), of ?nsp buf] by (simp_all add: q_def)
      have "slice buf q2 e2 = dropWhile is_sp (slice buf q e2)"
        unfolding q2_def by (rule slice_skip_while(2)[OF qb(2) e2len(1)])
      also have "slice buf q e2 = dropWhile ?nsp (slice buf base e2)"
        unfolding q_def by (rule slice_skip_while(2)[OF e2len(2,1)])
      finally have p: "slice buf q2 e2 = dropWhile is_sp (dropWhile ?nsp (slice buf base e2))" .
      have "parse_request_line tls buf base e rm =
              (None, rm\<lparr>msg_method := Some (slice buf base q),
                         msg_scheme := Some (if tls then ''https'' else ''http''),
                         msg_authority := Some ''http'',
                         msg_path := Some (slice buf q2 e2)\<rparr>)"
        using ge ok
        by (simp add: parse_request_line_def Let_def e2_def q_def q2_def h2_set_method_n_def
            h2_set_scheme_def h2_set_authority_def h2_set_path_n_def)
      also have "slice buf base q = takeWhile ?nsp (rtrim s)"
        unfolding m s' by (rule keep2_trim(1))
      also have "slice buf q2 e2 = dropWhile is_sp (dropWhile ?nsp (rtrim s))"
        unfolding p s' by (rule keep2_trim(2))
      finally show ?thesis
        using True len ok suf by (simp add: Let_def s_take)
    qed
  qed
qed


subsection \<open>Header lines\<close>

text \<open>The value of a decimal numeral, least significant digit last.\<close>

fun decimal_rev :: "string \<Rightarrow> int" where
  "decimal_rev [] = 0"
| "decimal_rev (c # cs) = digit_val c + 10 * decimal_rev cs"

definition decimal :: "string \<Rightarrow> int" where
  "decimal ds = decimal_rev (rev ds)"

lemma foldl_decimal: "foldl (\<lambda>a c. 10 * a + digit_val c) 0 ds = decimal ds"
  by (induction ds rule: rev_induct) (simp_all add: decimal_def)

lemma digit_not_space:
  assumes "is_digit c"
  shows "\<not> c_isspace c" and "\<not> is_sp c" and "c \<noteq> CHR ''-''" and "c \<noteq> CHR ''+''"
  using assms by (auto simp: is_digit_def c_isspace_def is_sp_def)

lemma decimal_nonneg: "list_all is_digit ds \<Longrightarrow> 0 \<le> decimal ds"
proof (induction ds rule: rev_induct)
  case Nil
  then show ?case by (simp add: decimal_def)
next
  case (snoc c ds)
  then have "0 \<le> decimal ds" "0 \<le> digit_val c"
    by (simp_all add: is_digit_def digit_val_def)
  then show ?case by (simp add: decimal_def)
qed

lemma atoi_digits:
  assumes "ds \<noteq> []" and "list_all is_digit ds" and "rest = [] \<or> \<not> is_digit (hd rest)"
    and "decimal ds < 2 ^ 31"
  shows "atoi (ds @ rest) = decimal ds"
proof -
  from assms(1) obtain d ds' where ds: "ds = d # ds'" by (cases ds) auto
  with assms(2) have d: "is_digit d" by simp
  have t: "takeWhile is_digit (ds @ rest) = ds"
  proof -
    have "takeWhile is_digit rest = []" using assms(3) by (cases rest) auto
    moreover have "\<forall>x\<in>set ds. is_digit x" using assms(2) by (simp add: list_all_iff)
    ultimately show ?thesis by (simp add: takeWhile_append2)
  qed
  have "strtol (ds @ rest) = long_saturate (digits_val (ds @ rest))"
    using digit_not_space[OF d] by (simp add: strtol_def ds)
  then have "strtol (ds @ rest) = long_saturate (decimal ds)"
    by (simp add: digits_val_def t foldl_decimal)
  moreover have "long_saturate (decimal ds) = decimal ds"
    using decimal_nonneg[OF assms(2)] assms(4) by (simp add: long_saturate_def)
  moreover have "to_int32 (decimal ds) = decimal ds"
    using decimal_nonneg[OF assms(2)] assms(4) by (simp add: to_int32_def)
  ultimately show ?thesis by (simp add: atoi_def)
qed

lemma trim_back_stop:
  "trim_back buf lo e < e \<Longrightarrow> is_sp (buf ! trim_back buf lo e)"
proof (induction buf lo e rule: trim_back.induct)
  case (1 buf lo e)
  show ?case
  proof (cases "e > lo \<and> is_sp (buf ! (e - 1))")
    case False
    then have "trim_back buf lo e = e" by (subst trim_back.simps) auto
    with "1.prems" show ?thesis by simp
  next
    case True
    then have eq: "trim_back buf lo e = trim_back buf lo (e - 1)"
      by (subst trim_back.simps) simp
    show ?thesis
    proof (cases "trim_back buf lo (e - 1) < e - 1")
      case True
      with "1.IH" \<open>e > lo \<and> is_sp (buf ! (e - 1))\<close> eq show ?thesis by simp
    next
      case False
      moreover from True have "lo \<le> e - 1" by auto
      from trim_back_bounds[OF this, of buf] have "trim_back buf lo (e - 1) \<le> e - 1" by simp
      ultimately have "trim_back buf lo (e - 1) = e - 1" by simp
      with eq True show ?thesis by simp
    qed
  qed
qed

lemma length_takeWhile_neq:
  "c \<in> set xs \<Longrightarrow> length (takeWhile (\<lambda>x. x \<noteq> c) xs) < length xs"
  by (induction xs) auto

lemma drop_slice: "v \<le> e' \<Longrightarrow> e' \<le> length buf \<Longrightarrow> drop v buf = slice buf v e' @ drop e' buf"
proof -
  assume a: "v \<le> e'" "e' \<le> length buf"
  have "drop v buf = take (e' - v) (drop v buf) @ drop (e' - v) (drop v buf)"
    by (rule append_take_drop_id[symmetric])
  also have "drop (e' - v) (drop v buf) = drop e' buf" using a by simp
  finally show ?thesis by (simp add: slice_def)
qed

text \<open>The header-line branch on the line at positions \<open>base \<le> i < e\<close>, in terms of
  the line.\<close>

lemma message_header_parse:
  assumes "base \<le> e" and "e \<le> length buf"
  shows "(let line = slice buf base e;
              name = takeWhile (\<lambda>c. c \<noteq> CHR '':'') line;
              v = rtrim (dropWhile is_sp (drop (Suc (length name)) line))
          in case parse_message_header server buf base e (rm, cl) of
               (r, rm', cl') \<Rightarrow>
                 if CHR '':'' \<notin> set line then r = Some (- 3) \<and> rm' = rm \<and> cl' = cl
                 else r = None \<and>
                   (if server \<and> map c_tolower name = ''host'' then
                      rm' = rm\<lparr>msg_authority := Some v\<rparr> \<and> cl' = cl
                    else if map c_tolower name = ''content-length'' then
                      rm' = rm \<and>
                      cl' = atoi (drop (base + Suc (length name)
                                         + length (takeWhile is_sp (drop (Suc (length name)) line)))
                                     buf) \<and>
                      (v \<noteq> [] \<and> list_all is_digit v \<and> decimal v < 2 ^ 31
                         \<and> (e < length buf \<longrightarrow> \<not> is_digit (buf ! e))
                         \<longrightarrow> cl' = decimal v)
                    else rm' = rm\<lparr>msg_hdrs := msg_hdrs rm @ [(name, v)]\<rparr> \<and> cl' = cl))"
proof (cases "CHR '':'' \<in> set (slice buf base e)")
  case False
  with memchr_find[OF assms, of "CHR '':''"] show ?thesis
    by (simp add: parse_message_header_def Let_def)
next
  case True
  let ?line = "slice buf base e"
  define name where "name = takeWhile (\<lambda>c. c \<noteq> CHR '':'') ?line"
  define q where "q = base + length name"
  define v where "v = skip_while is_sp buf (q + 1) e"
  define e' where "e' = trim_back buf v e"
  have mc: "memchr buf base e (CHR '':'') = Some q"
    using memchr_find[OF assms, of "CHR '':''"] True by (simp add: q_def name_def)
  have len: "length ?line = e - base" using assms by (simp add: length_slice)
  have "length name < length ?line"
    unfolding name_def using True by (rule length_takeWhile_neq)
  then have qb: "base \<le> q" "q < e" "q + 1 \<le> e" using len by (simp_all add: q_def)
  have nm: "slice buf base q = name"
  proof -
    have "slice buf base q = take (length name) ?line"
      using slice_slice_take[of base q e buf] qb by (simp add: q_def)
    also have "\<dots> = name" unfolding name_def by (rule takeWhile_eq_take[symmetric])
    finally show ?thesis .
  qed
  have raw: "slice buf (q + 1) e = drop (Suc (length name)) ?line"
    using slice_slice_drop[of base "q + 1" buf e] by (simp add: q_def)
  have vb: "q + 1 \<le> v" "v \<le> e"
    using skip_while_bounds[OF qb(3), of is_sp buf] by (simp_all add: v_def)
  have vpos: "v = base + Suc (length name)
                    + length (takeWhile is_sp (drop (Suc (length name)) ?line))"
    unfolding v_def using skip_while_takeWhile[OF qb(3) assms(2), of is_sp] raw
    by (simp add: q_def)
  have e'b: "v \<le> e'" "e' \<le> e"
    using trim_back_bounds[OF vb(2), of buf] by (simp_all add: e'_def)
  have "slice buf v e' = rtrim (slice buf v e)"
    unfolding e'_def using vb(2) assms(2) by (rule slice_trim_back)
  also have "slice buf v e = dropWhile is_sp (slice buf (q + 1) e)"
    unfolding v_def using qb(3) assms(2) by (rule slice_skip_while(2))
  finally have val: "slice buf v e' = rtrim (dropWhile is_sp (drop (Suc (length name)) ?line))"
    using raw by simp
  define vl where "vl = slice buf v e'"
  have cl: "atoi (drop v buf) = decimal vl"
    if "vl \<noteq> []" "list_all is_digit vl" "e < length buf \<longrightarrow> \<not> is_digit (buf ! e)"
      "decimal vl < 2 ^ 31"
  proof -
    have d: "drop v buf = vl @ drop e' buf"
      unfolding vl_def using e'b assms(2) by (intro drop_slice) simp_all
    have "drop e' buf = [] \<or> \<not> is_digit (hd (drop e' buf))"
    proof (cases "e' < length buf")
      case False
      then show ?thesis by simp
    next
      case lt: True
      then have hd: "hd (drop e' buf) = buf ! e'" by (simp add: hd_drop_conv_nth)
      show ?thesis
      proof (cases "e' < e")
        case True
        then have "is_sp (buf ! e')" unfolding e'_def by (rule trim_back_stop)
        with hd digit_not_space(2)[of "buf ! e'"] show ?thesis by auto
      next
        case False
        with e'b have "e' = e" by simp
        with lt that(3) hd show ?thesis by simp
      qed
    qed
    with that(1,2,4) show ?thesis unfolding d by (intro atoi_digits)
  qed
  have host: "strncasecmp_eq name ''host'' = (map c_tolower name = ''host'')"
    by (simp add: strncasecmp_eq_def c_tolower_def)
  have clen: "strncasecmp_eq name ''content-length'' = (map c_tolower name = ''content-length'')"
    by (simp add: strncasecmp_eq_def c_tolower_def)
  have l4: "map c_tolower name = ''host'' \<Longrightarrow> length name = 4"
    by (metis length_map list.size(3,4) One_nat_def Suc_eq_plus1 numeral_Bit0 numeral_One
        add_Suc_right add.right_neutral) 
  have l14: "map c_tolower name = ''content-length'' \<Longrightarrow> length name = 14"
  proof -
    assume "map c_tolower name = ''content-length''"
    then have "length (map c_tolower name) = length ''content-length''" by simp
    then show ?thesis by simp
  qed
  have nlen: "q - base = length name" by (simp add: q_def)
  have res: "parse_message_header server buf base e (rm, cl) =
      (if server \<and> map c_tolower name = ''host'' then
         (None, rm\<lparr>msg_authority := Some vl\<rparr>, cl)
       else if map c_tolower name = ''content-length'' then (None, rm, atoi (drop v buf))
       else (None, rm\<lparr>msg_hdrs := msg_hdrs rm @ [(name, vl)]\<rparr>, cl))"
    using l4 l14
    by (auto simp: parse_message_header_def mc Let_def nm nlen host clen h2_set_authority_def
        h2_add_hdr_n_def vl_def e'_def v_def)
  have vl_eq: "vl = rtrim (dropWhile is_sp (drop (Suc (length name)) ?line))"
    using val by (simp add: vl_def)
  have final: "case parse_message_header server buf base e (rm, cl) of
       (r, rm', cl') \<Rightarrow>
         if CHR '':'' \<notin> set ?line then r = Some (- 3) \<and> rm' = rm \<and> cl' = cl
         else r = None \<and>
           (if server \<and> map c_tolower name = ''host'' then
              rm' = rm\<lparr>msg_authority := Some vl\<rparr> \<and> cl' = cl
            else if map c_tolower name = ''content-length'' then
              rm' = rm \<and> cl' = atoi (drop v buf) \<and>
              (vl \<noteq> [] \<and> list_all is_digit vl \<and> decimal vl < 2 ^ 31
                 \<and> (e < length buf \<longrightarrow> \<not> is_digit (buf ! e))
                 \<longrightarrow> cl' = decimal vl)
            else rm' = rm\<lparr>msg_hdrs := msg_hdrs rm @ [(name, vl)]\<rparr> \<and> cl' = cl)"
    unfolding res using True cl by auto
  from final[unfolded vl_eq vpos name_def] show ?thesis
    unfolding Let_def .
qed


subsection \<open>\<^verbatim>\<open>h2_sess_recv_hdl_once_v1_1\<close>\<close>

text \<open>Modelled from the spec: \<^verbatim>\<open>h2_strm_init\<close> lives in \<^verbatim>\<open>h2_sess.c\<close>, which is not
  among the sources. By the spec a server-side stream with the synthetic id is created for
  a new request and the streams of a session are linked in first-in-first-out order: the
  new stream, with an empty message, is appended and its position returned.\<close>

definition h2_strm_init :: "int \<Rightarrow> h2_sess \<Rightarrow> nat \<times> h2_sess" where
  "h2_strm_init sid sess =
     (length (strm_list sess),
      sess\<lparr>strm_list := strm_list sess @ [strm_of_body sid []]\<rparr>)"

text \<open>The message \<^verbatim>\<open>sess->strm_recving->rmsg\<close>, read and written. The parser only
  uses it once \<open>strm_recving\<close> points to a stream of the session.\<close>

definition recving_rmsg :: "h2_sess \<Rightarrow> h2_msg" where
  "recving_rmsg sess = rmsg (strm_list sess ! the (strm_recving sess))"

definition set_recving_rmsg :: "h2_msg \<Rightarrow> h2_sess \<Rightarrow> h2_sess" where
  "set_recving_rmsg m sess =
     (let k = the (strm_recving sess)
      in sess\<lparr>strm_list := (strm_list sess)[k := (strm_list sess ! k)\<lparr>rmsg := m\<rparr>]\<rparr>)"

definition the_rdata :: "h2_sess \<Rightarrow> string" where
  "the_rdata sess = (case rdata sess of None \<Rightarrow> [] | Some buf \<Rightarrow> buf)"

text \<open>The start of a new message: the stream to receive into.\<close>

definition recv_start :: "h2_sess \<Rightarrow> int option \<times> h2_sess" where
  "recv_start sess =
     (case strm_recving sess of
        Some k \<Rightarrow> (None, sess)
      | None \<Rightarrow>
          if is_server sess then
            (case h2_strm_init (req_cnt sess * 2 + 1) sess of
               (k, sess1) \<Rightarrow>
                 (None, sess1\<lparr>strm_recving := Some k, rmsg_header_done := False,
                              rmsg_header_line := 0, rmsg_content_length := 0\<rparr>))
          else if strm_list sess = [] then (Some (- 1), sess)
          else (None, sess\<lparr>strm_recving := Some 0, rmsg_header_done := False,
                           rmsg_header_line := 0, rmsg_content_length := 0\<rparr>))"

text \<open>One non-empty line at positions \<open>base \<le> i < e\<close> of the buffer.\<close>

definition parse_line :: "string \<Rightarrow> nat \<Rightarrow> nat \<Rightarrow> h2_sess \<Rightarrow> int option \<times> h2_sess" where
  "parse_line buf base e sess =
     (if rmsg_header_line sess = 0 then
        (if is_server sess then
           (case parse_request_line (ssl sess) buf base e (recving_rmsg sess) of
              (r, m) \<Rightarrow> (r, set_recving_rmsg m sess))
         else
           (case parse_status_line buf base e (recving_rmsg sess) of
              (r, m) \<Rightarrow> (r, set_recving_rmsg m sess)))
      else
        (case parse_message_header (is_server sess) buf base e
                (recving_rmsg sess, rmsg_content_length sess) of
           (r, m, cl) \<Rightarrow> (r, set_recving_rmsg m (sess\<lparr>rmsg_content_length := cl\<rparr>))))"

lemma memchr_bounds:
  "memchr buf p limit c = Some q \<Longrightarrow> p \<le> q \<and> q < limit"
proof (induction buf p limit c rule: memchr.induct)
  case (1 buf p limit c)
  show ?case
  proof (cases "p < limit \<and> buf ! p \<noteq> c")
    case True
    with "1.prems" have "memchr buf (Suc p) limit c = Some q"
      by (simp add: memchr.simps[of buf p limit c])
    with "1.IH" True show ?thesis by auto
  next
    case False
    with "1.prems" show ?thesis
      by (auto simp: memchr.simps[of buf p limit c] split: if_splits)
  qed
qed

text \<open>The header loop. In the C code \<open>p\<close> equals \<open>base\<close> whenever the loop condition
  is tested, and \<open>rdata_used\<close> is set to \<open>base\<close> after every line.\<close>

function hdr_loop :: "string \<Rightarrow> nat \<Rightarrow> nat \<Rightarrow> h2_sess \<Rightarrow> int option \<times> h2_sess" where
  "hdr_loop buf limit base sess =
     (if base < limit then
        (case memchr buf base limit LF of
           None \<Rightarrow> (None, sess)
         | Some p \<Rightarrow>
             (let e = (if p > base \<and> buf ! (p - 1) = CR then p - 1 else p)
              in if e = base then
                   (None, sess\<lparr>rdata_used := int (p + 1), rmsg_header_done := True\<rparr>)
                 else
                   (case parse_line buf base e sess of
                      (Some r, sess1) \<Rightarrow> (Some r, sess1)
                    | (None, sess1) \<Rightarrow>
                        hdr_loop buf limit (p + 1)
                          (sess1\<lparr>rdata_used := int (p + 1),
                                 rmsg_header_line := rmsg_header_line sess1 + 1\<rparr>))))
      else (None, sess))"
  by pat_completeness auto
termination
proof (relation "measure (\<lambda>(buf, limit, base, sess). limit - base)", goal_cases)
  case 1
  show ?case by simp
next
  case (2 buf limit base sess p e x sess1)
  then have "base \<le> p \<and> p < limit" using memchr_bounds[of buf base limit LF p] by simp
  then show ?case by auto
qed

declare hdr_loop.simps [simp del]

text \<open>A user callback (\<^verbatim>\<open>h2_on_request_recv\<close>, \<^verbatim>\<open>h2_on_response_recv\<close>) is code of the
  application: it returns a value and may change the session in any way. The callbacks
  to come are a script, one entry per invocation; when the script is used up the model
  has no answer (\<open>None\<close>). The body part of the parser and the completion of a
  message (on a client the stream that \<open>strm_recving\<close> points to after the callback is
  freed; the byte count passed to \<^verbatim>\<open>h2_cpy_body\<close> is taken as a natural number):\<close>

type_synonym callback = "int \<times> (h2_sess \<Rightarrow> h2_sess)"

definition recv_body :: "callback list \<Rightarrow> h2_sess \<Rightarrow> (int \<times> h2_sess \<times> callback list) option" where
  "recv_body cbs sess =
     (if rmsg_header_done sess then
        (let sess1 =
               (if rmsg_content_length sess \<noteq> 0 \<and> h2_body_len (recving_rmsg sess) = 0 then
                  (if rdata_size sess - rdata_used sess \<ge> rmsg_content_length sess then
                     (set_recving_rmsg
                        (h2_cpy_body (recving_rmsg sess)
                           (take (nat (rmsg_content_length sess))
                              (drop (nat (rdata_used sess)) (the_rdata sess))))
                        sess)
                     \<lparr>rdata_used := rdata_used sess + rmsg_content_length sess\<rparr>
                   else sess)
                else sess)
         in if rmsg_content_length sess1 = h2_body_len (recving_rmsg sess1) then
              (case cbs of
                 [] \<Rightarrow> None
               | (r, f) # rest \<Rightarrow>
                   (let sess2 =
                          (if is_server sess1 then f (sess1\<lparr>req_cnt := req_cnt sess1 + 1\<rparr>)
                           else
                             (let sess3 = f sess1;
                                  sess4 = (case strm_recving sess3 of
                                             None \<Rightarrow> sess3
                                           | Some k \<Rightarrow> h2_strm_free k sess3)
                              in sess4\<lparr>strm_close_cnt := strm_close_cnt sess4 + 1\<rparr>))
                    in Some ((if r \<ge> 0 then 1 else r), sess2\<lparr>strm_recving := None\<rparr>, rest)))
            else Some (0, sess1, cbs))
      else Some (0, sess, cbs))"

definition h2_sess_recv_hdl_once_v1_1 ::
  "callback list \<Rightarrow> h2_sess \<Rightarrow> (int \<times> h2_sess \<times> callback list) option" where
  "h2_sess_recv_hdl_once_v1_1 cbs sess =
     (case recv_start sess of
        (Some r, sess1) \<Rightarrow> Some (r, sess1, cbs)
      | (None, sess1) \<Rightarrow>
          (case (if \<not> rmsg_header_done sess1
                 then hdr_loop (the_rdata sess1) (nat (rdata_size sess1)) (nat (rdata_used sess1)) sess1
                 else (None, sess1)) of
             (Some r, sess2) \<Rightarrow> Some (r, sess2, cbs)
           | (None, sess2) \<Rightarrow> recv_body cbs sess2))"

lemma parse_line_err: "parse_line buf base e sess = (Some r, sess1) \<Longrightarrow> r < 0"
  by (auto simp: parse_line_def parse_request_line_def parse_status_line_def
      parse_message_header_def Let_def split: if_splits prod.splits option.splits)

lemma hdr_loop_err: "hdr_loop buf limit base sess = (Some r, sess1) \<Longrightarrow> r < 0"
proof (induction buf limit base sess rule: hdr_loop.induct)
  case (1 buf limit base sess)
  from "1.prems" show ?case
    apply (subst (asm) hdr_loop.simps)
    apply (auto simp: Let_def split: if_splits option.splits prod.splits dest: parse_line_err)
    using "1.IH" apply (auto simp: Let_def split: if_splits)
    done
qed

lemma hdl_once_one:
  "h2_sess_recv_hdl_once_v1_1 cbs sess = Some (1, sess1, cbs1) \<Longrightarrow> length cbs1 < length cbs"
  by (auto simp: h2_sess_recv_hdl_once_v1_1_def recv_start_def recv_body_def Let_def
      h2_strm_init_def
      split: if_splits option.splits prod.splits list.splits dest: hdr_loop_err)

subsection \<open>One line of a message in a receive step\<close>

text \<open>The end of the line whose line feed is at position \<open>p\<close>: a carriage return before
  the line feed belongs to the terminator.\<close>

definition line_end :: "string \<Rightarrow> nat \<Rightarrow> nat \<Rightarrow> nat" where
  "line_end buf base p = (if p > base \<and> buf ! (p - 1) = CR then p - 1 else p)"

text \<open>What the step does after a line that parsed: \<open>rdata_used\<close> and the line counter
  move on, the remaining lines are read, then the body.\<close>

definition next_line :: "nat \<Rightarrow> h2_sess \<Rightarrow> h2_sess" where
  "next_line p s = s\<lparr>rdata_used := int (p + 1), rmsg_header_line := rmsg_header_line s + 1\<rparr>"

definition rest_of_step ::
  "callback list \<Rightarrow> string \<Rightarrow> nat \<Rightarrow> nat \<Rightarrow> h2_sess \<Rightarrow> (int \<times> h2_sess \<times> callback list) option" where
  "rest_of_step cbs buf limit p s =
     (case hdr_loop buf limit (p + 1) s of
        (Some r, s2) \<Rightarrow> Some (r, s2, cbs)
      | (None, s2) \<Rightarrow> recv_body cbs s2)"

text \<open>The session with the message of its stream \<open>k\<close> changed by \<open>f\<close>.\<close>

definition upd_rmsg :: "nat \<Rightarrow> (h2_msg \<Rightarrow> h2_msg) \<Rightarrow> h2_sess \<Rightarrow> h2_sess" where
  "upd_rmsg k f s =
     s\<lparr>strm_list := (strm_list s)[k := (strm_list s ! k)\<lparr>rmsg := f (rmsg (strm_list s ! k))\<rparr>]\<rparr>"

text \<open>The readings of a line that the claims describe.\<close>

definition status_line_ok :: "string \<Rightarrow> bool" where
  "status_line_ok line =
     (3 \<le> length line \<and> line ! 0 \<in> set ''12345'' \<and> line ! 1 \<in> set ''0123456789''
      \<and> line ! 2 \<in> set ''0123456789'' \<and> (length line = 3 \<or> is_sp (line ! 3)))"

definition status_code :: "string \<Rightarrow> int" where
  "status_code line = 100 * digit_val (line ! 0) + 10 * digit_val (line ! 1) + digit_val (line ! 2)"

definition request_line_ok :: "string \<Rightarrow> bool" where
  "request_line_ok line = (12 \<le> length line \<and> drop (length line - 8) line = ''HTTP/1.1'')"

definition request_target :: "string \<Rightarrow> string" where
  "request_target line = rtrim (take (length line - 8) line)"

definition request_method :: "string \<Rightarrow> string" where
  "request_method line = takeWhile (\<lambda>c. \<not> is_sp c) (request_target line)"

definition request_path :: "string \<Rightarrow> string" where
  "request_path line = dropWhile is_sp (dropWhile (\<lambda>c. \<not> is_sp c) (request_target line))"

definition hdr_name :: "string \<Rightarrow> string" where
  "hdr_name line = takeWhile (\<lambda>c. c \<noteq> CHR '':'') line"

definition hdr_value_start :: "string \<Rightarrow> nat" where
  "hdr_value_start line =
     Suc (length (hdr_name line))
       + length (takeWhile is_sp (drop (Suc (length (hdr_name line))) line))"

definition hdr_value :: "string \<Rightarrow> string" where
  "hdr_value line = rtrim (drop (hdr_value_start line) line)"

lemma memchr_Some: "memchr buf p limit c = Some q \<Longrightarrow> buf ! q = c"
proof (induction buf p limit c rule: memchr.induct)
  case (1 buf p limit c)
  show ?case
  proof (cases "p < limit \<and> buf ! p \<noteq> c")
    case True
    with "1.prems" have "memchr buf (Suc p) limit c = Some q"
      by (simp add: memchr.simps[of buf p limit c])
    with "1.IH" True show ?thesis by auto
  next
    case False
    with "1.prems" show ?thesis
      by (auto simp: memchr.simps[of buf p limit c] split: if_splits)
  qed
qed

lemma hdr_loop_line:
  assumes "memchr buf base limit LF = Some p"
  shows "hdr_loop buf limit base s =
     (if line_end buf base p = base then
        (None, s\<lparr>rdata_used := int (p + 1), rmsg_header_done := True\<rparr>)
      else
        (case parse_line buf base (line_end buf base p) s of
           (Some r, s1) \<Rightarrow> (Some r, s1)
         | (None, s1) \<Rightarrow> hdr_loop buf limit (p + 1) (next_line p s1)))"
proof -
  from memchr_bounds[OF assms] have "base < limit" by simp
  then show ?thesis
    by (subst hdr_loop.simps)
       (auto simp: assms Let_def line_end_def next_line_def split: prod.splits option.splits)
qed

lemma hdl_once_line:
  assumes "recv_start sess = (None, s0)" and "\<not> rmsg_header_done s0"
    and "memchr (the_rdata s0) (nat (rdata_used s0)) (nat (rdata_size s0)) LF = Some p"
  shows "h2_sess_recv_hdl_once_v1_1 cbs sess =
     (if line_end (the_rdata s0) (nat (rdata_used s0)) p = nat (rdata_used s0) then
        recv_body cbs (s0\<lparr>rdata_used := int (p + 1), rmsg_header_done := True\<rparr>)
      else
        (case parse_line (the_rdata s0) (nat (rdata_used s0))
                (line_end (the_rdata s0) (nat (rdata_used s0)) p) s0 of
           (Some r, s1) \<Rightarrow> Some (r, s1, cbs)
         | (None, s1) \<Rightarrow>
             rest_of_step cbs (the_rdata s0) (nat (rdata_size s0)) p (next_line p s1)))"
  unfolding h2_sess_recv_hdl_once_v1_1_def rest_of_step_def
  using assms(1,2) hdr_loop_line[OF assms(3), of s0]
  by (auto split: prod.splits option.splits)

lemma line_bounds:
  assumes "memchr buf base limit LF = Some p" and "limit \<le> length buf"
  shows "base \<le> line_end buf base p" and "line_end buf base p \<le> length buf"
    and "line_end buf base p < length buf" and "\<not> is_digit (buf ! line_end buf base p)"
    and "(slice buf base (line_end buf base p) = []) = (line_end buf base p = base)"
proof -
  from memchr_bounds[OF assms(1)] assms(2) have b: "base \<le> p" "p < length buf" by simp_all
  show 1: "base \<le> line_end buf base p" using b by (auto simp: line_end_def)
  show 2: "line_end buf base p \<le> length buf" using b by (auto simp: line_end_def)
  show "line_end buf base p < length buf" using b by (auto simp: line_end_def)
  have "buf ! line_end buf base p = CR \<or> buf ! line_end buf base p = LF"
    using memchr_Some[OF assms(1)] by (auto simp: line_end_def)
  then show "\<not> is_digit (buf ! line_end buf base p)"
    by (auto simp: is_digit_def CR_def LF_def)
  have "length (slice buf base (line_end buf base p)) = line_end buf base p - base"
    using 2 by (rule length_slice)
  with 1 show "(slice buf base (line_end buf base p) = []) = (line_end buf base p = base)"
    by (metis diff_is_0_eq le_antisym length_0_conv list.size(3) order_refl)
qed

lemma set_recving_rmsg_upd:
  "strm_recving s = Some k \<Longrightarrow>
     set_recving_rmsg (f (recving_rmsg s)) s = upd_rmsg k f s"
  by (simp add: set_recving_rmsg_def recving_rmsg_def upd_rmsg_def Let_def)

lemma set_recving_rmsg_same:
  "set_recving_rmsg (recving_rmsg s) s = s"
  by (simp add: set_recving_rmsg_def recving_rmsg_def Let_def)

lemma hdr_value_eq:
  "hdr_value line = rtrim (dropWhile is_sp (drop (Suc (length (hdr_name line))) line))"
proof -
  have "dropWhile is_sp (drop (Suc (length (hdr_name line))) line)
          = drop (length (takeWhile is_sp (drop (Suc (length (hdr_name line))) line)))
              (drop (Suc (length (hdr_name line))) line)"
    by (rule dropWhile_eq_drop)
  then show ?thesis
    by (simp add: hdr_value_def hdr_value_start_def add.commute)
qed

lemma parse_line_status:
  assumes "\<not> is_server s0" and "rmsg_header_line s0 = 0" and "strm_recving s0 = Some k"
    and "base \<le> e" and "e \<le> length buf"
  shows "parse_line buf base e s0 =
     (if status_line_ok (slice buf base e)
      then (None, upd_rmsg k (\<lambda>m. m\<lparr>msg_status := status_code (slice buf base e)\<rparr>) s0)
      else (Some (- 2), s0))"
  using assms(1,2) status_line_parse[OF assms(4,5), where rm="recving_rmsg s0"]
    set_recving_rmsg_upd[OF assms(3), of "\<lambda>m. m\<lparr>msg_status := status_code (slice buf base e)\<rparr>"]
  by (simp add: parse_line_def Let_def status_line_ok_def status_code_def set_recving_rmsg_same)

lemma parse_line_request:
  assumes "is_server s0" and "rmsg_header_line s0 = 0" and "strm_recving s0 = Some k"
    and "base \<le> e" and "e \<le> length buf"
  shows "parse_line buf base e s0 =
     (if request_line_ok (slice buf base e)
      then (None, upd_rmsg k
                    (\<lambda>m. m\<lparr>msg_method := Some (request_method (slice buf base e)),
                            msg_scheme := Some (if ssl s0 then ''https'' else ''http''),
                            msg_authority := Some ''http'',
                            msg_path := Some (request_path (slice buf base e))\<rparr>) s0)
      else (Some (- 1), s0))"
  using assms(1,2) request_line_parse[OF assms(4,5), where tls="ssl s0" and rm="recving_rmsg s0"]
    set_recving_rmsg_upd[OF assms(3),
      of "\<lambda>m. m\<lparr>msg_method := Some (request_method (slice buf base e)),
                 msg_scheme := Some (if ssl s0 then ''https'' else ''http''),
                 msg_authority := Some ''http'',
                 msg_path := Some (request_path (slice buf base e))\<rparr>"]
  by (simp add: parse_line_def Let_def request_line_ok_def request_method_def request_path_def
      request_target_def set_recving_rmsg_same)

lemma parse_line_header:
  assumes "rmsg_header_line s0 \<noteq> 0" and "strm_recving s0 = Some k"
    and "base \<le> e" and "e \<le> length buf" and "e < length buf \<longrightarrow> \<not> is_digit (buf ! e)"
  shows "parse_line buf base e s0 =
     (if CHR '':'' \<notin> set (slice buf base e) then (Some (- 3), s0)
      else if is_server s0 \<and> map c_tolower (hdr_name (slice buf base e)) = ''host'' then
        (None, upd_rmsg k (\<lambda>m. m\<lparr>msg_authority := Some (hdr_value (slice buf base e))\<rparr>) s0)
      else if map c_tolower (hdr_name (slice buf base e)) = ''content-length'' then
        (None, s0\<lparr>rmsg_content_length :=
                     atoi (drop (base + hdr_value_start (slice buf base e)) buf)\<rparr>)
      else
        (None, upd_rmsg k (\<lambda>m. m\<lparr>msg_hdrs := msg_hdrs m @ [(hdr_name (slice buf base e),
                                                              hdr_value (slice buf base e))]\<rparr>) s0))"
    and "CHR '':'' \<in> set (slice buf base e) \<Longrightarrow>
         map c_tolower (hdr_name (slice buf base e)) = ''content-length'' \<Longrightarrow>
         hdr_value (slice buf base e) \<noteq> [] \<Longrightarrow> list_all is_digit (hdr_value (slice buf base e)) \<Longrightarrow>
         decimal (hdr_value (slice buf base e)) < 2 ^ 31 \<Longrightarrow>
         atoi (drop (base + hdr_value_start (slice buf base e)) buf)
           = decimal (hdr_value (slice buf base e))"
proof -
  let ?line = "slice buf base e"
  obtain r rm' cl' where pm:
    "parse_message_header (is_server s0) buf base e (recving_rmsg s0, rmsg_content_length s0)
       = (r, rm', cl')"
    by (metis prod_cases3)
  have pl: "parse_line buf base e s0 = (r, set_recving_rmsg rm' (s0\<lparr>rmsg_content_length := cl'\<rparr>))"
    using assms(1) pm by (simp add: parse_line_def)
  have pos: "base + Suc (length (hdr_name ?line))
               + length (takeWhile is_sp (drop (Suc (length (hdr_name ?line))) ?line))
             = base + hdr_value_start ?line"
    by (simp add: hdr_value_start_def)
  note mh = message_header_parse[OF assms(3,4), where server="is_server s0"
      and rm="recving_rmsg s0" and cl="rmsg_content_length s0", unfolded Let_def pm prod.case, folded hdr_name_def,
      folded hdr_value_eq, unfolded pos]
  have rc: "recving_rmsg (s0\<lparr>rmsg_content_length := c\<rparr>) = recving_rmsg s0" for c
    by (simp add: recving_rmsg_def)
  have sk: "strm_recving (s0\<lparr>rmsg_content_length := c\<rparr>) = Some k" for c
    using assms(2) by simp
  have up: "set_recving_rmsg (f (recving_rmsg s0)) (s0\<lparr>rmsg_content_length := rmsg_content_length s0\<rparr>)
              = upd_rmsg k f s0" for f
    using set_recving_rmsg_upd[OF assms(2), of f] by simp
  have same: "set_recving_rmsg (recving_rmsg s0) (s0\<lparr>rmsg_content_length := c\<rparr>)
                = s0\<lparr>rmsg_content_length := c\<rparr>" for c
    using set_recving_rmsg_same[of "s0\<lparr>rmsg_content_length := c\<rparr>"] by (simp add: rc)
  show "parse_line buf base e s0 =
     (if CHR '':'' \<notin> set ?line then (Some (- 3), s0)
      else if is_server s0 \<and> map c_tolower (hdr_name ?line) = ''host'' then
        (None, upd_rmsg k (\<lambda>m. m\<lparr>msg_authority := Some (hdr_value ?line)\<rparr>) s0)
      else if map c_tolower (hdr_name ?line) = ''content-length'' then
        (None, s0\<lparr>rmsg_content_length := atoi (drop (base + hdr_value_start ?line) buf)\<rparr>)
      else
        (None, upd_rmsg k (\<lambda>m. m\<lparr>msg_hdrs := msg_hdrs m @ [(hdr_name ?line, hdr_value ?line)]\<rparr>) s0))"
  proof (cases "CHR '':'' \<in> set ?line")
    case False
    with mh have "r = Some (- 3)" "rm' = recving_rmsg s0" "cl' = rmsg_content_length s0" by simp_all
    with False pl same[of "rmsg_content_length s0"] show ?thesis by simp
  next
    case colon: True
    show ?thesis
    proof (cases "is_server s0 \<and> map c_tolower (hdr_name ?line) = ''host''")
      case True
      with colon mh have "r = None" "rm' = (recving_rmsg s0)\<lparr>msg_authority := Some (hdr_value ?line)\<rparr>"
        "cl' = rmsg_content_length s0" by simp_all
      with colon True pl up[of "\<lambda>m. m\<lparr>msg_authority := Some (hdr_value ?line)\<rparr>"]
      show ?thesis by simp
    next
      case nh: False
      show ?thesis
      proof (cases "map c_tolower (hdr_name ?line) = ''content-length''")
        case True
        with colon nh mh have "r = None" "rm' = recving_rmsg s0"
          "cl' = atoi (drop (base + hdr_value_start ?line) buf)" by simp_all
        with colon nh True pl same show ?thesis by auto
      next
        case False
        with colon nh mh have "r = None"
          "rm' = (recving_rmsg s0)\<lparr>msg_hdrs := msg_hdrs (recving_rmsg s0)
                                       @ [(hdr_name ?line, hdr_value ?line)]\<rparr>"
          "cl' = rmsg_content_length s0" by simp_all
        with colon nh False pl
          up[of "\<lambda>m. m\<lparr>msg_hdrs := msg_hdrs m @ [(hdr_name ?line, hdr_value ?line)]\<rparr>"]
        show ?thesis by auto
      qed
    qed
  qed
  show "atoi (drop (base + hdr_value_start ?line) buf) = decimal (hdr_value ?line)"
    if "CHR '':'' \<in> set ?line" "map c_tolower (hdr_name ?line) = ''content-length''"
      "hdr_value ?line \<noteq> []" "list_all is_digit (hdr_value ?line)"
      "decimal (hdr_value ?line) < 2 ^ 31"
  proof -
    have "\<not> (is_server s0 \<and> map c_tolower (hdr_name ?line) = ''host'')"
      using that(2) by auto
    with that assms(5) mh show ?thesis by simp
  qed
qed

subsection \<open>The first line of a response in a receive step\<close>

lemma recv_start_new:
  assumes "strm_recving sess = None"
  shows "is_server sess \<Longrightarrow>
           recv_start sess =
             (None, sess\<lparr>strm_list := strm_list sess @ [strm_of_body (req_cnt sess * 2 + 1) []],
                         strm_recving := Some (length (strm_list sess)),
                         rmsg_header_done := False, rmsg_header_line := 0,
                         rmsg_content_length := 0\<rparr>)"
    and "\<not> is_server sess \<Longrightarrow> strm_list sess \<noteq> [] \<Longrightarrow>
           recv_start sess =
             (None, sess\<lparr>strm_recving := Some 0, rmsg_header_done := False,
                         rmsg_header_line := 0, rmsg_content_length := 0\<rparr>)"
    and "\<not> is_server sess \<Longrightarrow> strm_list sess = [] \<Longrightarrow> recv_start sess = (Some (- 1), sess)"
  using assms by (simp_all add: recv_start_def h2_strm_init_def)

text \<open>Claim C3 as stated fails: an empty first line is not a parse error. On a client
  session with an outstanding request whose buffer starts with a line feed, the step takes
  the empty line as the end of the headers, completes the message and returns 1.\<close>

definition client_empty_line :: h2_sess where
  "client_empty_line =
     (sess_zero H2_HTTP_V1_1)
       \<lparr>strm_list := [strm_of_body 1 []], req_cnt := 1, rdata := Some [LF],
        rdata_alloced := 16384, rdata_size := 1\<rparr>"

theorem client_first_line_counterexample:
  "map_option fst (h2_sess_recv_hdl_once_v1_1 [(0, id)] client_empty_line) = Some 1
   \<and> map_option (rdata_used \<circ> fst \<circ> snd)
        (h2_sess_recv_hdl_once_v1_1 [(0, id)] client_empty_line) = Some 1
   \<and> length (slice [LF] 0 (line_end [LF] 0 0)) = 0"
  by code_simp

text \<open>Claim C3, amended. In a receive step of a client session that is at the first line of
  a message, with a complete line in the buffer: an empty line ends the headers; a
  non-empty line parses exactly when it has at least 3 bytes, the first three are ASCII
  digits with the first in \<open>1..5\<close>, and the line is 3 bytes long or its fourth byte is a
  space or a tab. Then the status of the message being received becomes
  \<open>100 d0 + 10 d1 + d2\<close>, nothing else of the line is looked at, and the step goes on
  with the next line; otherwise the step returns \<open>- 2\<close>. Here \<open>s0\<close> is the session once
  the stream to receive into is chosen, and \<open>p\<close> the position of the first line feed in
  the unread bytes.\<close>

theorem client_first_line:
  assumes "recv_start sess = (None, s0)"
    and "\<not> is_server s0" and "rmsg_header_line s0 = 0" and "\<not> rmsg_header_done s0"
    and "strm_recving s0 = Some k" and "k < length (strm_list s0)"
    and "nat (rdata_size s0) \<le> length (the_rdata s0)"
    and "memchr (the_rdata s0) (nat (rdata_used s0)) (nat (rdata_size s0)) LF = Some p"
  shows "(let buf = the_rdata s0; base = nat (rdata_used s0);
              line = slice buf base (line_end buf base p)
          in h2_sess_recv_hdl_once_v1_1 cbs sess =
               (if line = [] then
                  recv_body cbs (s0\<lparr>rdata_used := int (p + 1), rmsg_header_done := True\<rparr>)
                else if status_line_ok line then
                  rest_of_step cbs buf (nat (rdata_size s0)) p
                    (next_line p (upd_rmsg k (\<lambda>m. m\<lparr>msg_status := status_code line\<rparr>) s0))
                else Some (- 2, s0, cbs)))"
  unfolding Let_def
  using hdl_once_line[OF assms(1,4,8), of cbs] line_bounds(5)[OF assms(8,7)]
    parse_line_status[OF assms(2,3,5) line_bounds(1,2)[OF assms(8,7)]]
  by auto

definition client_status :: h2_sess where
  "client_status =
     (sess_zero H2_HTTP_V1_1)
       \<lparr>strm_list := [strm_of_body 1 []], req_cnt := 1, rdata := Some (''200 OK'' @ [CR, LF]),
        rdata_alloced := 16384, rdata_size := 8\<rparr>"

theorem client_first_line_witness:
  "recv_start client_status = (None, client_status\<lparr>strm_recving := Some 0\<rparr>)
   \<and> memchr (''200 OK'' @ [CR, LF]) 0 8 LF = Some 7
   \<and> h2_sess_recv_hdl_once_v1_1 [] client_status =
       Some (0, client_status
                  \<lparr>strm_list := [(strm_of_body 1 [])\<lparr>rmsg := msg_empty\<lparr>msg_status := 200\<rparr>\<rparr>],
                   strm_recving := Some 0, rdata_used := 8, rmsg_header_line := 1\<rparr>, [])
   \<and> h2_sess_recv_hdl_once_v1_1 []
         (client_status\<lparr>rdata := Some (''HTTP/1.1 200 OK'' @ [CR, LF]), rdata_size := 17\<rparr>) =
       Some (- 2, client_status\<lparr>rdata := Some (''HTTP/1.1 200 OK'' @ [CR, LF]), rdata_size := 17,
                                 strm_recving := Some 0\<rparr>, [])"
proof -
  let ?sa = "client_status\<lparr>strm_recving := Some 0\<rparr>"
  let ?tt = "client_status\<lparr>rdata := Some (''HTTP/1.1 200 OK'' @ [CR, LF]), rdata_size := 17\<rparr>"
  let ?tb = "?tt\<lparr>strm_recving := Some 0\<rparr>"
  have st: "recv_start client_status = (None, ?sa)" "recv_start ?tt = (None, ?tb)"
    by (simp_all add: recv_start_def client_status_def sess_zero_def)
  have h: "\<not> is_server ?sa" "rmsg_header_line ?sa = 0" "\<not> rmsg_header_done ?sa"
    "strm_recving ?sa = Some 0" "0 < length (strm_list ?sa)"
    "nat (rdata_size ?sa) \<le> length (the_rdata ?sa)"
    by (simp_all add: client_status_def sess_zero_def the_rdata_def)
  have g: "\<not> is_server ?tb" "rmsg_header_line ?tb = 0" "\<not> rmsg_header_done ?tb"
    "strm_recving ?tb = Some 0" "0 < length (strm_list ?tb)"
    "nat (rdata_size ?tb) \<le> length (the_rdata ?tb)"
    by (simp_all add: client_status_def sess_zero_def the_rdata_def)
  have m: "memchr (''200 OK'' @ [CR, LF]) 0 8 LF = Some 7"
    "memchr (''HTTP/1.1 200 OK'' @ [CR, LF]) 0 17 LF = Some 16"
    by code_simp+
  have nl: "memchr (the_rdata ?sa) (nat (rdata_used ?sa)) (nat (rdata_size ?sa)) LF = Some 7"
    "memchr (the_rdata ?tb) (nat (rdata_used ?tb)) (nat (rdata_size ?tb)) LF = Some 16"
    using m by (simp_all add: client_status_def sess_zero_def the_rdata_def)
  have e: "line_end (''200 OK'' @ [CR, LF]) 0 7 = 6"
    "line_end (''HTTP/1.1 200 OK'' @ [CR, LF]) 0 16 = 15"
    by (simp_all add: line_end_def CR_def)
  have ok: "status_line_ok ''200 OK''" "\<not> status_line_ok ''HTTP/1.1 200 OK''"
    "status_code ''200 OK'' = 200"
    by (simp_all add: status_line_ok_def status_code_def is_sp_def digit_val_def)
  have r1: "h2_sess_recv_hdl_once_v1_1 [] client_status =
              rest_of_step [] (''200 OK'' @ [CR, LF]) 8 7
                (next_line 7 (upd_rmsg 0 (\<lambda>m. m\<lparr>msg_status := 200\<rparr>) ?sa))"
    using client_first_line[OF st(1) h nl(1), of "[]"] e ok
    by (simp add: Let_def slice_def client_status_def sess_zero_def the_rdata_def)
  have r2: "h2_sess_recv_hdl_once_v1_1 [] ?tt = Some (- 2, ?tb, [])"
    using client_first_line[OF st(2) g nl(2), of "[]"] e ok
    by (simp add: Let_def slice_def client_status_def sess_zero_def the_rdata_def)
  have "rest_of_step [] (''200 OK'' @ [CR, LF]) 8 7
                (next_line 7 (upd_rmsg 0 (\<lambda>m. m\<lparr>msg_status := 200\<rparr>) ?sa))
        = Some (0, client_status
                  \<lparr>strm_list := [(strm_of_body 1 [])\<lparr>rmsg := msg_empty\<lparr>msg_status := 200\<rparr>\<rparr>],
                   strm_recving := Some 0, rdata_used := 8, rmsg_header_line := 1\<rparr>, [])"
    by (simp add: rest_of_step_def hdr_loop.simps[of _ 8 8] recv_body_def next_line_def
        upd_rmsg_def client_status_def sess_zero_def strm_of_body_def)
  with r1 r2 st(1) m(1) show ?thesis by simp
qed

subsection \<open>The first line of a request in a receive step\<close>

text \<open>Claim C4 as stated fails: the byte before the version is never looked at. A server
  session that receives \<^verbatim>\<open>GET /abcHTTP/1.1\<close>, where no white space precedes the version,
  takes the line as a request line with method \<^verbatim>\<open>GET\<close> and path \<^verbatim>\<open>/abc\<close>: the step
  returns 0 and waits for the headers.\<close>

definition server_no_space :: h2_sess where
  "server_no_space =
     (sess_zero H2_HTTP_V1_1)
       \<lparr>is_server := True, rdata := Some (''GET /abcHTTP/1.1'' @ [LF]),
        rdata_alloced := 16384, rdata_size := 17\<rparr>"

theorem server_first_line_counterexample:
  "map_option fst (h2_sess_recv_hdl_once_v1_1 [] server_no_space) = Some 0
   \<and> map_option (map (msg_method \<circ> rmsg) \<circ> strm_list \<circ> fst \<circ> snd)
        (h2_sess_recv_hdl_once_v1_1 [] server_no_space) = Some [Some ''GET'']
   \<and> map_option (map (msg_path \<circ> rmsg) \<circ> strm_list \<circ> fst \<circ> snd)
        (h2_sess_recv_hdl_once_v1_1 [] server_no_space) = Some [Some ''/abc'']
   \<and> map_option (rmsg_header_line \<circ> fst \<circ> snd)
        (h2_sess_recv_hdl_once_v1_1 [] server_no_space) = Some 1
   \<and> \<not> is_sp (''GET /abcHTTP/1.1'' ! 7)"
  by code_simp

text \<open>Claim C4, amended. In a receive step of a server session that is at the first line of
  a message, with a complete line in the buffer: an empty line ends the headers; a
  non-empty line parses exactly when it is at least 12 bytes long and its last 8 bytes are
  \<^verbatim>\<open>HTTP/1.1\<close> (white space before the version is not required); otherwise the step
  returns \<open>- 1\<close>. On success the version and the spaces and tabs before it are stripped, the
  method of the message being received is the maximal run of bytes other than space and tab
  from the start of the line, the path is what remains after the spaces and tabs that
  follow the method, the scheme is \<^verbatim>\<open>https\<close> on a TLS session and \<^verbatim>\<open>http\<close> otherwise,
  the authority is the text \<^verbatim>\<open>http\<close>, and the step goes on with the next line.\<close>

theorem server_first_line:
  assumes "recv_start sess = (None, s0)"
    and "is_server s0" and "rmsg_header_line s0 = 0" and "\<not> rmsg_header_done s0"
    and "strm_recving s0 = Some k" and "k < length (strm_list s0)"
    and "nat (rdata_size s0) \<le> length (the_rdata s0)"
    and "memchr (the_rdata s0) (nat (rdata_used s0)) (nat (rdata_size s0)) LF = Some p"
  shows "(let buf = the_rdata s0; base = nat (rdata_used s0);
              line = slice buf base (line_end buf base p)
          in h2_sess_recv_hdl_once_v1_1 cbs sess =
               (if line = [] then
                  recv_body cbs (s0\<lparr>rdata_used := int (p + 1), rmsg_header_done := True\<rparr>)
                else if 12 \<le> length line \<and> drop (length line - 8) line = ''HTTP/1.1'' then
                  rest_of_step cbs buf (nat (rdata_size s0)) p
                    (next_line p
                       (upd_rmsg k
                          (\<lambda>m. m\<lparr>msg_method := Some (request_method line),
                                  msg_scheme := Some (if ssl s0 then ''https'' else ''http''),
                                  msg_authority := Some ''http'',
                                  msg_path := Some (request_path line)\<rparr>) s0))
                else Some (- 1, s0, cbs))
             \<and> request_target line = rtrim (take (length line - 8) line)
             \<and> request_method line = takeWhile (\<lambda>c. \<not> is_sp c) (request_target line)
             \<and> request_path line
                 = dropWhile is_sp (dropWhile (\<lambda>c. \<not> is_sp c) (request_target line)))"
  unfolding Let_def
  using hdl_once_line[OF assms(1,4,8), of cbs] line_bounds(5)[OF assms(8,7)]
    parse_line_request[OF assms(2,3,5) line_bounds(1,2)[OF assms(8,7)]]
  by (auto simp: request_line_ok_def request_method_def request_path_def request_target_def)

definition server_request :: h2_sess where
  "server_request =
     (sess_zero H2_HTTP_V1_1)
       \<lparr>is_server := True, rdata := Some (''GET  /abc  HTTP/1.1'' @ [CR, LF]),
        rdata_alloced := 16384, rdata_size := 21\<rparr>"

theorem server_first_line_witness:
  "recv_start server_request =
     (None, server_request\<lparr>strm_list := [strm_of_body 1 []], strm_recving := Some 0\<rparr>)
   \<and> memchr (''GET  /abc  HTTP/1.1'' @ [CR, LF]) 0 21 LF = Some 20
   \<and> h2_sess_recv_hdl_once_v1_1 [] server_request =
       Some (0, server_request
                  \<lparr>strm_list :=
                     [(strm_of_body 1 [])
                        \<lparr>rmsg := msg_empty\<lparr>msg_method := Some ''GET'', msg_scheme := Some ''http'',
                                           msg_authority := Some ''http'',
                                           msg_path := Some ''/abc''\<rparr>\<rparr>],
                   strm_recving := Some 0, rdata_used := 21, rmsg_header_line := 1\<rparr>, [])
   \<and> h2_sess_recv_hdl_once_v1_1 []
         (server_request\<lparr>rdata := Some (''GET /abc HTTP/1.0'' @ [CR, LF]), rdata_size := 19\<rparr>) =
       Some (- 1, server_request\<lparr>rdata := Some (''GET /abc HTTP/1.0'' @ [CR, LF]),
                                  rdata_size := 19, strm_list := [strm_of_body 1 []],
                                  strm_recving := Some 0\<rparr>, [])"
proof -
  let ?sa = "server_request\<lparr>strm_list := [strm_of_body 1 []], strm_recving := Some 0\<rparr>"
  let ?tt = "server_request\<lparr>rdata := Some (''GET /abc HTTP/1.0'' @ [CR, LF]), rdata_size := 19\<rparr>"
  let ?tb = "?tt\<lparr>strm_list := [strm_of_body 1 []], strm_recving := Some 0\<rparr>"
  have st: "recv_start server_request = (None, ?sa)" "recv_start ?tt = (None, ?tb)"
    by (simp_all add: recv_start_def h2_strm_init_def server_request_def sess_zero_def)
  have h: "is_server ?sa" "rmsg_header_line ?sa = 0" "\<not> rmsg_header_done ?sa"
    "strm_recving ?sa = Some 0" "0 < length (strm_list ?sa)"
    "nat (rdata_size ?sa) \<le> length (the_rdata ?sa)"
    by (simp_all add: server_request_def sess_zero_def the_rdata_def)
  have g: "is_server ?tb" "rmsg_header_line ?tb = 0" "\<not> rmsg_header_done ?tb"
    "strm_recving ?tb = Some 0" "0 < length (strm_list ?tb)"
    "nat (rdata_size ?tb) \<le> length (the_rdata ?tb)"
    by (simp_all add: server_request_def sess_zero_def the_rdata_def)
  have m: "memchr (''GET  /abc  HTTP/1.1'' @ [CR, LF]) 0 21 LF = Some 20"
    "memchr (''GET /abc HTTP/1.0'' @ [CR, LF]) 0 19 LF = Some 18"
    by code_simp+
  have nl: "memchr (the_rdata ?sa) (nat (rdata_used ?sa)) (nat (rdata_size ?sa)) LF = Some 20"
    "memchr (the_rdata ?tb) (nat (rdata_used ?tb)) (nat (rdata_size ?tb)) LF = Some 18"
    using m by (simp_all add: server_request_def sess_zero_def the_rdata_def)
  have e: "line_end (''GET  /abc  HTTP/1.1'' @ [CR, LF]) 0 20 = 19"
    "line_end (''GET /abc HTTP/1.0'' @ [CR, LF]) 0 18 = 17"
    by (simp_all add: line_end_def CR_def)
  have ok: "request_method ''GET  /abc  HTTP/1.1'' = ''GET''"
    "request_path ''GET  /abc  HTTP/1.1'' = ''/abc''"
    by code_simp+
  have r1: "h2_sess_recv_hdl_once_v1_1 [] server_request =
              rest_of_step [] (''GET  /abc  HTTP/1.1'' @ [CR, LF]) 21 20
                (next_line 20
                   (upd_rmsg 0 (\<lambda>m. m\<lparr>msg_method := Some ''GET'', msg_scheme := Some ''http'',
                                       msg_authority := Some ''http'',
                                       msg_path := Some ''/abc''\<rparr>) ?sa))"
    using server_first_line[OF st(1) h nl(1), of "[]"] e ok
    by (simp add: Let_def slice_def server_request_def sess_zero_def the_rdata_def)
  have r2: "h2_sess_recv_hdl_once_v1_1 [] ?tt = Some (- 1, ?tb, [])"
    using server_first_line[OF st(2) g nl(2), of "[]"] e
    by (simp add: Let_def slice_def server_request_def sess_zero_def the_rdata_def)
  have "rest_of_step [] (''GET  /abc  HTTP/1.1'' @ [CR, LF]) 21 20
                (next_line 20
                   (upd_rmsg 0 (\<lambda>m. m\<lparr>msg_method := Some ''GET'', msg_scheme := Some ''http'',
                                       msg_authority := Some ''http'',
                                       msg_path := Some ''/abc''\<rparr>) ?sa))
        = Some (0, server_request
                  \<lparr>strm_list :=
                     [(strm_of_body 1 [])
                        \<lparr>rmsg := msg_empty\<lparr>msg_method := Some ''GET'', msg_scheme := Some ''http'',
                                           msg_authority := Some ''http'',
                                           msg_path := Some ''/abc''\<rparr>\<rparr>],
                   strm_recving := Some 0, rdata_used := 21, rmsg_header_line := 1\<rparr>, [])"
    by (simp add: rest_of_step_def hdr_loop.simps[of _ 21 21] recv_body_def next_line_def
        upd_rmsg_def server_request_def sess_zero_def strm_of_body_def msg_empty_def)
  with r1 r2 st(1) m(1) show ?thesis by simp
qed

subsection \<open>A header line in a receive step\<close>

text \<open>What the step does with a line after the first, whose line feed is at \<open>p\<close>, on the
  session \<open>s0\<close> receiving into its stream \<open>k\<close>, following the words of the specification, with the
  stored length as the code computes it.\<close>

definition header_line_outcome ::
  "callback list \<Rightarrow> string \<Rightarrow> nat \<Rightarrow> nat \<Rightarrow> nat \<Rightarrow> nat \<Rightarrow> h2_sess
     \<Rightarrow> (int \<times> h2_sess \<times> callback list) option" where
  "header_line_outcome cbs buf limit base p k s0 =
     (let line = slice buf base (line_end buf base p)
      in if line = [] then
           recv_body cbs (s0\<lparr>rdata_used := int (p + 1), rmsg_header_done := True\<rparr>)
         else if CHR '':'' \<notin> set line then Some (- 3, s0, cbs)
         else
           rest_of_step cbs buf limit p
             (next_line p
                (if is_server s0 \<and> map c_tolower (hdr_name line) = ''host'' then
                   upd_rmsg k (\<lambda>m. m\<lparr>msg_authority := Some (hdr_value line)\<rparr>) s0
                 else if map c_tolower (hdr_name line) = ''content-length'' then
                   s0\<lparr>rmsg_content_length := atoi (drop (base + hdr_value_start line) buf)\<rparr>
                 else
                   upd_rmsg k
                     (\<lambda>m. m\<lparr>msg_hdrs := msg_hdrs m @ [(hdr_name line, hdr_value line)]\<rparr>) s0)))"

text \<open>Claim C5 as stated fails for lengths that do not fit a C \<^verbatim>\<open>int\<close>: a request with
  the header \<^verbatim>\<open>Content-Length: 4294967298\<close> leaves the expected body length 2.\<close>

definition server_long_body :: h2_sess where
  "server_long_body =
     (sess_zero H2_HTTP_V1_1)
       \<lparr>is_server := True,
        rdata := Some (''GET / HTTP/1.1'' @ [LF] @ ''Content-Length: 4294967298'' @ [LF]),
        rdata_alloced := 16384, rdata_size := 42\<rparr>"

theorem header_line_step_counterexample:
  "map_option fst (h2_sess_recv_hdl_once_v1_1 [] server_long_body) = Some 0
   \<and> map_option (rmsg_content_length \<circ> fst \<circ> snd)
        (h2_sess_recv_hdl_once_v1_1 [] server_long_body) = Some 2
   \<and> map_option (rmsg_header_line \<circ> fst \<circ> snd)
        (h2_sess_recv_hdl_once_v1_1 [] server_long_body) = Some 2
   \<and> hdr_value ''Content-Length: 4294967298'' = ''4294967298''
   \<and> decimal ''4294967298'' = 4294967298"
  by code_simp

text \<open>Claim C5, amended. In a receive step, a complete line after the first line of a
  message, be it the first unread line when the step starts or a later line of the same
  step: an empty line ends the headers; a line with no colon makes the step return \<open>- 3\<close>;
  otherwise the line is split at its first colon, the value is what follows with spaces
  and tabs removed on both sides, and the step goes on with the next line after one of:
  on a server session a name equal to \<^verbatim>\<open>host\<close> without regard to case sets the
  authority of the message being received to the value and appends no header; a name equal
  to \<^verbatim>\<open>content-length\<close> without regard to case sets the expected body length of the
  session to what \<^verbatim>\<open>atoi\<close> reads at the start of the value, which is the decimal value
  whenever the value is a non-empty run of digits that denotes a number below \<open>2 ^ 31\<close>;
  every other pair of name and value is appended to the end of the header list.\<close>

theorem header_line_step:
  assumes "rmsg_header_line s0 \<noteq> 0" and "strm_recving s0 = Some k"
    and "k < length (strm_list s0)" and "limit \<le> length buf"
    and "memchr buf base limit LF = Some p"
  shows "(recv_start sess = (None, s0) \<and> \<not> rmsg_header_done s0 \<and> buf = the_rdata s0
            \<and> limit = nat (rdata_size s0) \<and> base = nat (rdata_used s0)
          \<longrightarrow> h2_sess_recv_hdl_once_v1_1 cbs sess = header_line_outcome cbs buf limit base p k s0)
       \<and> (base = q + 1
          \<longrightarrow> rest_of_step cbs buf limit q s0 = header_line_outcome cbs buf limit base p k s0)
       \<and> (let line = slice buf base (line_end buf base p)
          in hdr_name line = takeWhile (\<lambda>c. c \<noteq> CHR '':'') line
             \<and> (CHR '':'' \<in> set line
                \<longrightarrow> hdr_value line
                      = rtrim (dropWhile is_sp (drop (Suc (length (hdr_name line))) line)))
             \<and> (CHR '':'' \<in> set line \<and> map c_tolower (hdr_name line) = ''content-length''
                  \<and> hdr_value line \<noteq> [] \<and> list_all is_digit (hdr_value line)
                  \<and> decimal (hdr_value line) < 2 ^ 31
                \<longrightarrow> atoi (drop (base + hdr_value_start line) buf) = decimal (hdr_value line)))"
proof -
  note lb = line_bounds[OF assms(5,4)]
  note pl = parse_line_header[OF assms(1,2) lb(1,2), of]
  have d: "e < length buf \<longrightarrow> \<not> is_digit (buf ! e)" if "e = line_end buf base p" for e
    using lb(4) that by simp
  note pl1 = parse_line_header(1)[OF assms(1,2) lb(1,2) d[OF refl]]
  note pl2 = parse_line_header(2)[OF assms(1,2) lb(1,2) d[OF refl]]
  have a: "h2_sess_recv_hdl_once_v1_1 cbs sess = header_line_outcome cbs buf limit base p k s0"
    if "recv_start sess = (None, s0)" "\<not> rmsg_header_done s0" "buf = the_rdata s0"
      "limit = nat (rdata_size s0)" "base = nat (rdata_used s0)"
  proof -
    from assms(5) that have m: "memchr (the_rdata s0) (nat (rdata_used s0)) (nat (rdata_size s0)) LF = Some p"
      by simp
    show ?thesis
      using hdl_once_line[OF that(1,2) m, of cbs] lb(5) pl1 that(3,4,5)
      by (auto simp: header_line_outcome_def Let_def)
  qed
  have b: "rest_of_step cbs buf limit q s0 = header_line_outcome cbs buf limit base p k s0"
    if "base = q + 1"
  proof -
    have "rest_of_step cbs buf limit q s0 =
            (case hdr_loop buf limit base s0 of
               (Some r, s2) \<Rightarrow> Some (r, s2, cbs) | (None, s2) \<Rightarrow> recv_body cbs s2)"
      using that by (simp add: rest_of_step_def)
    then show ?thesis
      using hdr_loop_line[OF assms(5), of s0] lb(5) pl1
      by (auto simp: header_line_outcome_def Let_def rest_of_step_def)
  qed
  have c: "hdr_value line = rtrim (dropWhile is_sp (drop (Suc (length (hdr_name line))) line))"
    for line
  proof -
    have "drop (hdr_value_start line) line
            = drop (length (takeWhile is_sp (drop (Suc (length (hdr_name line))) line)))
                (drop (Suc (length (hdr_name line))) line)"
      unfolding hdr_value_start_def by (simp add: add.commute)
    also have "\<dots> = dropWhile is_sp (drop (Suc (length (hdr_name line))) line)"
      by (rule dropWhile_eq_drop[symmetric])
    finally show ?thesis by (simp add: hdr_value_def)
  qed
  show ?thesis
    unfolding Let_def using a b c pl2 by (auto simp: hdr_name_def)
qed

definition header_buf :: string where
  "header_buf = ''GET / HTTP/1.1'' @ [CR, LF] @ ''Content-Length:  5 '' @ [CR, LF]"

definition server_header :: h2_sess where
  "server_header =
     (sess_zero H2_HTTP_V1_1)
       \<lparr>is_server := True, strm_list := [strm_of_body 1 []], strm_recving := Some 0,
        rdata := Some header_buf, rdata_alloced := 16384, rdata_size := 37, rdata_used := 16,
        rmsg_header_line := 1\<rparr>"

theorem header_line_step_witness:
  "recv_start server_header = (None, server_header)
   \<and> memchr header_buf 16 37 LF = Some 36
   \<and> slice header_buf 16 (line_end header_buf 16 36) = ''Content-Length:  5 ''
   \<and> h2_sess_recv_hdl_once_v1_1 [] server_header =
       Some (0, server_header\<lparr>rmsg_content_length := 5, rdata_used := 37,
                               rmsg_header_line := 2\<rparr>, [])
   \<and> rest_of_step [] header_buf 37 15 server_header =
       Some (0, server_header\<lparr>rmsg_content_length := 5, rdata_used := 37,
                               rmsg_header_line := 2\<rparr>, [])
   \<and> hdr_name ''Content-Length:  5 '' = ''Content-Length''
   \<and> hdr_value ''Content-Length:  5 '' = ''5''
   \<and> atoi (drop (16 + hdr_value_start ''Content-Length:  5 '') header_buf) = decimal ''5''"
proof -
  have st: "recv_start server_header = (None, server_header)"
    by (simp add: recv_start_def server_header_def sess_zero_def)
  have h: "rmsg_header_line server_header \<noteq> 0" "strm_recving server_header = Some 0"
    "0 < length (strm_list server_header)" "37 \<le> length header_buf"
    by (simp_all add: server_header_def sess_zero_def header_buf_def)
  have m: "memchr header_buf 16 37 LF = Some 36" by code_simp
  have f: "\<not> rmsg_header_done server_header" "header_buf = the_rdata server_header"
    "37 = nat (rdata_size server_header)" "16 = nat (rdata_used server_header)"
    "is_server server_header"
    by (simp_all add: server_header_def sess_zero_def the_rdata_def)
  have l: "slice header_buf 16 (line_end header_buf 16 36) = ''Content-Length:  5 ''"
    "map c_tolower (hdr_name ''Content-Length:  5 '') = ''content-length''"
    "hdr_name ''Content-Length:  5 '' = ''Content-Length''"
    "hdr_value ''Content-Length:  5 '' = ''5''"
    "hdr_value_start ''Content-Length:  5 '' = 17"
    "atoi (drop 33 header_buf) = 5"
    "decimal ''5'' = 5"
    "list_all is_digit ''5''"
    by code_simp+
  have o: "header_line_outcome [] header_buf 37 16 36 0 server_header =
             Some (0, server_header\<lparr>rmsg_content_length := 5, rdata_used := 37,
                                     rmsg_header_line := 2\<rparr>, [])"
    using l f(1,5)
    by (simp add: header_line_outcome_def Let_def rest_of_step_def hdr_loop.simps[of _ 37 37]
        recv_body_def next_line_def server_header_def sess_zero_def)
  from header_line_step[OF h m, where sess=server_header and q=15 and cbs="[]"] st f l o show ?thesis
    using m by (simp add: Let_def)
qed

subsection \<open>\<^verbatim>\<open>h2_sess_recv_v1_1\<close>\<close>

definition RDATA_ALLOC_DEF :: int where
  "RDATA_ALLOC_DEF = 16 * 1024"

text \<open>Appending the received chunk \<open>data\<close> of \<open>sz\<close> bytes to \<open>rdata\<close>: first
  allocation, plain append, or compaction (with growth when needed) and append. The
  field \<open>rdata\<close> holds the bytes in use, \<open>rdata_alloced\<close> the capacity.\<close>

definition rdata_append :: "string \<Rightarrow> int \<Rightarrow> h2_sess \<Rightarrow> h2_sess" where
  "rdata_append data sz sess =
     (case rdata sess of
        None \<Rightarrow>
          sess\<lparr>rdata_alloced := (if sz \<ge> RDATA_ALLOC_DEF then sz else RDATA_ALLOC_DEF),
               rdata := Some (take (nat sz) data),
               rdata_size := sz,
               rdata_used := 0\<rparr>
      | Some buf \<Rightarrow>
          if rdata_alloced sess \<ge> rdata_size sess + sz then
            sess\<lparr>rdata := Some (take (nat (rdata_size sess)) buf @ take (nat sz) data),
                 rdata_size := rdata_size sess + sz\<rparr>
          else
            (let sess1 =
                   (if rdata_alloced sess < rdata_size sess - rdata_used sess + sz
                    then sess\<lparr>rdata_alloced := rdata_size sess - rdata_used sess + sz\<rparr>
                    else sess);
                 sess2 = sess1\<lparr>rdata_size := rdata_size sess1 - rdata_used sess1,
                               rdata_offset := rdata_offset sess1 + rdata_used sess1\<rparr>;
                 buf2 = (if rdata_size sess2 \<noteq> 0
                         then take (nat (rdata_size sess2)) (drop (nat (rdata_used sess2)) buf)
                         else buf);
                 sess3 = sess2\<lparr>rdata_used := 0\<rparr>
             in sess3\<lparr>rdata := Some (take (nat (rdata_size sess3)) buf2 @ take (nat sz) data),
                      rdata_size := rdata_size sess3 + sz\<rparr>))"

text \<open>The loop \<^verbatim>\<open>while ((r = h2_sess_recv_hdl_once_v1_1(sess)) == 1)\<close>: it yields the
  last \<open>r\<close>. Every round that returns 1 has run a callback.\<close>

function recv_loop :: "callback list \<Rightarrow> h2_sess \<Rightarrow> (int \<times> h2_sess \<times> callback list) option" where
  "recv_loop cbs sess =
     (case h2_sess_recv_hdl_once_v1_1 cbs sess of
        None \<Rightarrow> None
      | Some (r, sess1, cbs1) \<Rightarrow>
          if r = 1 then
            (if rdata_used sess1 = rdata_size sess1 \<or> is_terminated sess1 = 1
             then Some (r, sess1, cbs1)
             else recv_loop cbs1 sess1)
          else Some (r, sess1, cbs1))"
  by pat_completeness auto
termination
proof (relation "measure (\<lambda>(cbs, sess). length cbs)", goal_cases)
  case 1
  show ?case by simp
next
  case (2 cbs sess x2 r y sess1 cbs1)
  then have "h2_sess_recv_hdl_once_v1_1 cbs sess = Some (1, sess1, cbs1)" by simp
  from hdl_once_one[OF this] show ?case by simp
qed

declare recv_loop.simps [simp del]

definition h2_sess_recv_v1_1 ::
  "callback list \<Rightarrow> h2_sess \<Rightarrow> string \<Rightarrow> int \<Rightarrow> (int \<times> h2_sess \<times> callback list) option" where
  "h2_sess_recv_v1_1 cbs sess data sz =
     (case recv_loop cbs (rdata_append data sz sess) of
        None \<Rightarrow> None
      | Some (r, sess1, cbs1) \<Rightarrow>
          if r < 0 then Some (- 1, sess1, cbs1)
          else if rdata_used sess1 = rdata_size sess1 \<and> rdata_alloced sess1 > RDATA_ALLOC_DEF
          then Some (sz, sess1\<lparr>rdata_offset := rdata_offset sess1 + rdata_used sess1,
                                rdata := None, rdata_alloced := 0, rdata_size := 0,
                                rdata_used := 0\<rparr>, cbs1)
          else Some (sz, sess1, cbs1))"

text \<open>A client session in the middle of a response: the status line has been parsed,
  the read buffer was grown to 20000 bytes by an earlier large chunk and, after
  compaction, holds the start of a header line.\<close>

definition client_grown :: h2_sess where
  "client_grown =
     (sess_zero H2_HTTP_V1_1)
       \<lparr>strm_list := [(strm_of_body 1 [])\<lparr>rmsg := msg_empty\<lparr>msg_status := 200\<rparr>\<rparr>],
        strm_recving := Some 0, req_cnt := 1, rmsg_header_line := 1,
        rdata := Some ''X-a: bc'', rdata_alloced := 20000, rdata_size := 7,
        rdata_offset := 19993\<rparr>"

definition client_grown_parsed :: h2_sess where
  "client_grown_parsed =
     client_grown
       \<lparr>strm_list := [], strm_recving := None, strm_close_cnt := 1,
        rdata := Some (''X-a: bc'' @ [LF, LF]), rdata_size := 9, rdata_used := 9,
        rmsg_header_done := True, rmsg_header_line := 2\<rparr>"

text \<open>Claim C6 as stated fails on a receive step that ends in an error: when the
  response callback returns a negative value, \<^verbatim>\<open>h2_sess_recv_v1_1\<close> returns \<open>- 1\<close>
  before the reclamation, and the drained buffer of capacity 20000 stays allocated.\<close>

theorem recv_v1_1_reclaim_counterexample:
  "map_option fst (h2_sess_recv_v1_1 [(- 1, id)] client_grown [LF, LF] 2) = Some (- 1)
   \<and> map_option (fst \<circ> snd) (h2_sess_recv_v1_1 [(- 1, id)] client_grown [LF, LF] 2)
       = Some client_grown_parsed
   \<and> rdata_used client_grown_parsed = rdata_size client_grown_parsed
   \<and> rdata_alloced client_grown_parsed > RDATA_ALLOC_DEF
   \<and> rdata client_grown_parsed \<noteq> None"
  by code_simp

text \<open>Claim C6, amended. After a receive step that does not fail (the parser and the
  callbacks report no error): if all buffered bytes are consumed and the capacity exceeds
  the 16 KiB default, the read buffer is freed and reset (data null; capacity, size and
  used zero); otherwise the buffer is retained as the parser left it. So after such a
  step a drained buffer never holds more than the default capacity.\<close>

theorem recv_v1_1_reclaim:
  assumes "recv_loop cbs (rdata_append data sz sess) = Some (r, sess1, cbs1)" and "0 \<le> r"
  shows "h2_sess_recv_v1_1 cbs sess data sz =
           Some (sz,
                 (if rdata_used sess1 = rdata_size sess1 \<and> rdata_alloced sess1 > 16 * 1024
                  then sess1\<lparr>rdata_offset := rdata_offset sess1 + rdata_used sess1,
                             rdata := None, rdata_alloced := 0, rdata_size := 0, rdata_used := 0\<rparr>
                  else sess1),
                 cbs1)
         \<and> (\<forall>sess'. h2_sess_recv_v1_1 cbs sess data sz = Some (sz, sess', cbs1) \<longrightarrow>
               rdata_used sess' = rdata_size sess' \<longrightarrow> rdata_alloced sess' \<le> 16 * 1024)"
  using assms by (auto simp: h2_sess_recv_v1_1_def RDATA_ALLOC_DEF_def)

theorem recv_v1_1_reclaim_witness:
  "recv_loop [(0, id)] (rdata_append [LF, LF] 2 client_grown) = Some (1, client_grown_parsed, [])
   \<and> h2_sess_recv_v1_1 [(0, id)] client_grown [LF, LF] 2
       = Some (2, client_grown_parsed\<lparr>rdata_offset := 20002, rdata := None, rdata_alloced := 0,
                                      rdata_size := 0, rdata_used := 0\<rparr>, [])"
proof -
  have "map_option fst (recv_loop [(0, id)] (rdata_append [LF, LF] 2 client_grown)) = Some 1"
    and "map_option (fst \<circ> snd) (recv_loop [(0, id)] (rdata_append [LF, LF] 2 client_grown))
           = Some client_grown_parsed"
    and "map_option (length \<circ> snd \<circ> snd)
           (recv_loop [(0, id)] (rdata_append [LF, LF] 2 client_grown)) = Some 0"
    by code_simp+
  then have h: "recv_loop [(0, id)] (rdata_append [LF, LF] 2 client_grown)
             = Some (1, client_grown_parsed, [])"
    by (cases "recv_loop [(0, id)] (rdata_append [LF, LF] 2 client_grown)") auto
  from recv_v1_1_reclaim[OF h] h show ?thesis
    by (simp add: client_grown_parsed_def client_grown_def sess_zero_def)
qed

section \<open>Peer: a pool of sessions to one authority\<close>

record h2_settings =
  header_table_size :: int
  enable_push :: int
  max_concurrent_streams :: int
  initial_window_size :: int
  max_frame_size :: int
  max_header_list_size :: int
  enable_connect_protocol :: int

definition h2_settings_init :: h2_settings where
  "h2_settings_init =
     \<lparr>header_table_size = - 1, enable_push = - 1, max_concurrent_streams = - 1,
      initial_window_size = - 1, max_frame_size = - 1, max_header_list_size = - 1,
      enable_connect_protocol = - 1\<rparr>"

text \<open>The fields of \<^verbatim>\<open>h2_peer\<close> that the request routing uses. The array \<^verbatim>\<open>sess\<close> of
  session pointers is the list \<open>peer_sess\<close> (the peer is the only path to these sessions
  here), the array \<^verbatim>\<open>act_sess\<close> of flags is a list of booleans.\<close>

record h2_peer =
  sess_num :: int
  req_thr_for_reconn :: int
  peer_settings :: h2_settings
  peer_sess :: "h2_sess option list"
  act_sess :: "bool list"
  act_sess_num :: int
  next_sess_idx :: int
  peer_is_terminated :: int

text \<open>The C operator \<^verbatim>\<open>%\<close> truncates towards zero.\<close>

definition c_rem :: "int \<Rightarrow> int \<Rightarrow> int" where
  "c_rem a b = sgn a * (\<bar>a\<bar> mod \<bar>b\<bar>)"

lemma c_rem_nonneg: "0 \<le> a \<Longrightarrow> 0 < b \<Longrightarrow> c_rem a b = a mod b"
  by (cases "a = 0") (simp_all add: c_rem_def)

subsection \<open>\<^verbatim>\<open>h2_peer_send_request\<close>\<close>

text \<open>The rotation of a session that has handled too many requests: the slot is marked
  inactive and the session is terminated with \<open>wait_rsp = 1\<close>.\<close>

definition rotate_out :: "int \<Rightarrow> nat \<Rightarrow> h2_peer \<Rightarrow> h2_peer" where
  "rotate_out ng_ret si peer =
     (let peer1 = (if act_sess peer ! si
                   then peer\<lparr>act_sess := (act_sess peer)[si := False],
                             act_sess_num := act_sess_num peer - 1\<rparr>
                   else peer)
      in peer1\<lparr>peer_sess := (peer_sess peer1)[si := snd (h2_sess_terminate ng_ret (peer_sess peer1 ! si) 1)]\<rparr>)"

text \<open>The house-keeping test on a candidate session in slot \<open>si\<close>.\<close>

definition rotation_due :: "h2_peer \<Rightarrow> nat \<Rightarrow> bool" where
  "rotation_due peer si =
     (req_thr_for_reconn peer > 0 \<and>
      req_cnt (the (peer_sess peer ! si)) \<ge> req_thr_for_reconn peer \<and>
      act_sess_num peer \<ge> sess_num peer)"

text \<open>The search loop \<^verbatim>\<open>for (i = 0; i < n; i++)\<close>. The local pointer \<^verbatim>\<open>sess\<close> is the
  slot it points into, or \<open>None\<close> for \<^verbatim>\<open>NULL\<close>; it is assigned in the loop condition
  \<^verbatim>\<open>(sess = peer->sess[si]) && peer->act_sess[si]\<close> also when the slot is not active. The
  result is the peer, the final \<open>i\<close> and the final \<^verbatim>\<open>sess\<close>.\<close>

function probe_loop ::
  "int \<Rightarrow> int \<Rightarrow> int \<Rightarrow> int \<Rightarrow> h2_peer \<Rightarrow> nat option \<Rightarrow> h2_peer \<times> int \<times> nat option" where
  "probe_loop ng_ret n nsi i peer sv =
     (if i < n then
        (let si = nat (c_rem (nsi + i) n);
             sv = (case peer_sess peer ! si of None \<Rightarrow> None | Some s \<Rightarrow> Some si)
         in if sv \<noteq> None \<and> act_sess peer ! si then
              (if rotation_due peer si
               then probe_loop ng_ret n nsi (i + 1) (rotate_out ng_ret si peer) None
               else (peer, i, sv))
            else probe_loop ng_ret n nsi (i + 1) peer sv)
      else (peer, i, sv))"
  by pat_completeness auto
termination
  by (relation "measure (\<lambda>(ng_ret, n, nsi, i, peer, sv). nat (n - i))") auto

declare probe_loop.simps [simp del]

text \<open>\<^verbatim>\<open>h2_send_request\<close> lives in \<^verbatim>\<open>h2_sess.c\<close>, which is not among the sources: it
  is the parameter \<open>send_req\<close>, which yields the returned value and the session after
  the call.\<close>

definition h2_peer_send_request ::
  "(h2_sess \<Rightarrow> int \<times> h2_sess) \<Rightarrow> int \<Rightarrow> h2_peer \<Rightarrow> int \<times> h2_peer" where
  "h2_peer_send_request send_req ng_ret peer =
     (let n = sess_num peer; nsi = next_sess_idx peer
      in if peer_is_terminated peer \<noteq> 0 then (- 1, peer)
         else
           (case probe_loop ng_ret n nsi 0 peer None of
              (peer1, i, sv) \<Rightarrow>
                (let peer2 = peer1\<lparr>next_sess_idx := c_rem (nsi + i + 1) n\<rparr>
                 in case sv of
                      Some k \<Rightarrow>
                        (case send_req (the (peer_sess peer2 ! k)) of
                           (r, s) \<Rightarrow> (r, peer2\<lparr>peer_sess := (peer_sess peer2)[k := Some s]\<rparr>))
                    | None \<Rightarrow> (- 1, peer2))))"

subsection \<open>\<^verbatim>\<open>h2_peer_connect\<close>\<close>

text \<open>The outcome of \<^verbatim>\<open>h2_connect\<close> depends on the network: \<open>conn i\<close> is the session
  that the connection attempt for slot \<open>i\<close> yields, \<open>None\<close> when it fails.\<close>

definition peer_connect_sess :: "(nat \<Rightarrow> h2_sess option) \<Rightarrow> nat \<Rightarrow> h2_peer \<Rightarrow> h2_peer" where
  "peer_connect_sess conn sess_idx peer =
     (case conn sess_idx of
        Some s \<Rightarrow>
          (let peer1 = peer\<lparr>peer_sess := (peer_sess peer)[sess_idx := Some s]\<rparr>
           in if \<not> act_sess peer1 ! sess_idx
              then peer1\<lparr>act_sess := (act_sess peer1)[sess_idx := True],
                         act_sess_num := act_sess_num peer1 + 1\<rparr>
              else peer1)
      | None \<Rightarrow> peer)"

definition h2_peer_connect ::
  "(nat \<Rightarrow> h2_sess option) \<Rightarrow> int \<Rightarrow> int \<Rightarrow> h2_settings option \<Rightarrow> h2_peer option" where
  "h2_peer_connect conn sess_num_arg req_thr_arg settings =
     (let req_thr = (if req_thr_arg \<noteq> 0 \<and> sess_num_arg = 1 then 0 else req_thr_arg);
          peer = \<lparr>sess_num = sess_num_arg,
                  req_thr_for_reconn = req_thr,
                  peer_settings = (case settings of Some s \<Rightarrow> s | None \<Rightarrow> h2_settings_init),
                  peer_sess = replicate (nat sess_num_arg) None,
                  act_sess = replicate (nat sess_num_arg) False,
                  act_sess_num = 0,
                  next_sess_idx = 0,
                  peer_is_terminated = 0\<rparr>;
          peer = fold (peer_connect_sess conn) [0..<nat sess_num_arg] peer
      in if act_sess_num peer \<le> 0 then None else Some peer)"

subsection \<open>Properties of the request routing\<close>

lemma rotate_out_fields [simp]:
  "sess_num (rotate_out ng si peer) = sess_num peer"
  "req_thr_for_reconn (rotate_out ng si peer) = req_thr_for_reconn peer"
  "next_sess_idx (rotate_out ng si peer) = next_sess_idx peer"
  "peer_is_terminated (rotate_out ng si peer) = peer_is_terminated peer"
  by (simp_all add: rotate_out_def Let_def)

lemma probe_loop_done: "\<not> i < n \<Longrightarrow> probe_loop ng n nsi i peer sv = (peer, i, sv)"
  by (simp add: probe_loop.simps[of ng n nsi i peer sv])

lemma probe_loop_step:
  assumes "i < n"
  shows "probe_loop ng n nsi i peer sv =
     (let si = nat (c_rem (nsi + i) n)
      in if peer_sess peer ! si \<noteq> None \<and> act_sess peer ! si then
           (if rotation_due peer si
            then probe_loop ng n nsi (i + 1) (rotate_out ng si peer) None
            else (peer, i, Some si))
         else probe_loop ng n nsi (i + 1) peer
                (case peer_sess peer ! si of None \<Rightarrow> None | Some s \<Rightarrow> Some si))"
  using assms
  by (subst probe_loop.simps) (auto simp: Let_def split: option.splits)

lemma probe_loop_exit:
  "probe_loop ng n nsi i peer sv = (peer', i', sv') \<Longrightarrow> i \<le> n \<Longrightarrow>
     i \<le> i' \<and> (i' = n \<or> (i' < n \<and> sv' \<noteq> None))"
proof (induction ng n nsi i peer sv rule: probe_loop.induct)
  case (1 ng n nsi i peer sv)
  show ?case
  proof (cases "i < n")
    case False
    with "1.prems" show ?thesis by (simp add: probe_loop_done)
  next
    case True
    define si where "si = nat (c_rem (nsi + i) n)"
    define sv1 where "sv1 = (case peer_sess peer ! si of None \<Rightarrow> None | Some s \<Rightarrow> Some si)"
    have sv1: "(sv1 \<noteq> None) = (peer_sess peer ! si \<noteq> None)"
      by (simp add: sv1_def split: option.splits)
    note step = probe_loop_step[OF True, of ng nsi peer sv, unfolded Let_def, folded si_def, folded sv1_def]
    show ?thesis
    proof (cases "sv1 \<noteq> None \<and> act_sess peer ! si")
      case False
      with "1.prems"(1) sv1 have "probe_loop ng n nsi (i + 1) peer sv1 = (peer', i', sv')"
        by (auto simp: step)
      with "1.IH"(2)[OF True si_def sv1_def False] True show ?thesis by simp
    next
      case cand: True
      show ?thesis
      proof (cases "rotation_due peer si")
        case False
        with True cand "1.prems"(1) sv1 show ?thesis
          by (auto simp: step)
      next
        case rot: True
        with cand "1.prems"(1) sv1
        have "probe_loop ng n nsi (i + 1) (rotate_out ng si peer) None = (peer', i', sv')"
          by (auto simp: step)
        with "1.IH"(1)[OF True si_def sv1_def cand rot] True show ?thesis by simp
      qed
    qed
  qed
qed

lemma probe_loop_no_thr:
  "probe_loop ng n nsi i peer sv = (peer', i', sv') \<Longrightarrow> req_thr_for_reconn peer \<le> 0 \<Longrightarrow>
     peer' = peer"
proof (induction ng n nsi i peer sv rule: probe_loop.induct)
  case (1 ng n nsi i peer sv)
  show ?case
  proof (cases "i < n")
    case False
    with "1.prems" show ?thesis by (simp add: probe_loop_done)
  next
    case True
    define si where "si = nat (c_rem (nsi + i) n)"
    define sv1 where "sv1 = (case peer_sess peer ! si of None \<Rightarrow> None | Some s \<Rightarrow> Some si)"
    have sv1: "(sv1 \<noteq> None) = (peer_sess peer ! si \<noteq> None)"
      by (simp add: sv1_def split: option.splits)
    have nr: "\<not> rotation_due peer si" using "1.prems"(2) by (simp add: rotation_due_def)
    note step = probe_loop_step[OF True, of ng nsi peer sv, unfolded Let_def, folded si_def, folded sv1_def]
    show ?thesis
    proof (cases "sv1 \<noteq> None \<and> act_sess peer ! si")
      case False
      with "1.prems"(1) sv1 have "probe_loop ng n nsi (i + 1) peer sv1 = (peer', i', sv')"
        by (auto simp: step)
      with "1.IH"(2)[OF True si_def sv1_def False] "1.prems"(2) show ?thesis by simp
    next
      case cand: True
      with "1.prems"(1) sv1 nr show ?thesis by (auto simp: step)
    qed
  qed
qed

text \<open>The slot at the cursor can take the request: it holds a session, is active, and
  is not due for rotation.\<close>

definition slot_usable :: "h2_peer \<Rightarrow> nat \<Rightarrow> bool" where
  "slot_usable peer si =
     (peer_sess peer ! si \<noteq> None \<and> act_sess peer ! si \<and> \<not> rotation_due peer si)"

lemma probe_loop_first:
  assumes "0 < n" and "probe_loop ng n nsi 0 peer None = (peer1, i, sv)"
  shows "(i = 0) = slot_usable peer (nat (c_rem nsi n))"
proof (cases "slot_usable peer (nat (c_rem nsi n))")
  case True
  with assms show ?thesis
    by (auto simp: probe_loop_step[OF assms(1)] slot_usable_def Let_def)
next
  case False
  with assms obtain p' s' where "probe_loop ng n nsi 1 p' s' = (peer1, i, sv)"
    by (auto simp: probe_loop_step[OF assms(1)] slot_usable_def Let_def split: if_splits)
  from probe_loop_exit[OF this] assms(1) have "1 \<le> i" by simp
  with False show ?thesis by simp
qed


lemma probe_loop_fields:
  "probe_loop ng n nsi i peer sv = (peer', i', sv') \<Longrightarrow>
     sess_num peer' = sess_num peer \<and> req_thr_for_reconn peer' = req_thr_for_reconn peer
     \<and> next_sess_idx peer' = next_sess_idx peer"
proof (induction ng n nsi i peer sv rule: probe_loop.induct)
  case (1 ng n nsi i peer sv)
  show ?case
  proof (cases "i < n")
    case False
    with "1.prems" show ?thesis by (simp add: probe_loop_done)
  next
    case True
    define si where "si = nat (c_rem (nsi + i) n)"
    define sv1 where "sv1 = (case peer_sess peer ! si of None \<Rightarrow> None | Some s \<Rightarrow> Some si)"
    have sv1: "(sv1 \<noteq> None) = (peer_sess peer ! si \<noteq> None)"
      by (simp add: sv1_def split: option.splits)
    note step = probe_loop_step[OF True, of ng nsi peer sv, unfolded Let_def, folded si_def, folded sv1_def]
    show ?thesis
    proof (cases "sv1 \<noteq> None \<and> act_sess peer ! si")
      case False
      with "1.prems"(1) sv1 have "probe_loop ng n nsi (i + 1) peer sv1 = (peer', i', sv')"
        by (auto simp: step)
      with "1.IH"(2)[OF True si_def sv1_def False] show ?thesis by simp
    next
      case cand: True
      show ?thesis
      proof (cases "rotation_due peer si")
        case False
        with cand "1.prems"(1) sv1 show ?thesis by (auto simp: step)
      next
        case rot: True
        with cand "1.prems"(1) sv1
        have "probe_loop ng n nsi (i + 1) (rotate_out ng si peer) None = (peer', i', sv')"
          by (auto simp: step)
        with "1.IH"(1)[OF True si_def sv1_def cand rot] show ?thesis by simp
      qed
    qed
  qed
qed

text \<open>Claim C7 as stated fails. On a peer with three slots whose first slot is empty, the
  request goes to the second slot and the cursor moves from 0 to 2; on a terminating peer
  the request is refused and the cursor stays where it is.\<close>

definition peer3 :: h2_peer where
  "peer3 =
     \<lparr>sess_num = 3, req_thr_for_reconn = 0, peer_settings = h2_settings_init,
      peer_sess = [None, Some (sess_zero H2_HTTP_V2), Some (sess_zero H2_HTTP_V2)],
      act_sess = [False, True, True], act_sess_num = 2, next_sess_idx = 0,
      peer_is_terminated = 0\<rparr>"

theorem send_request_cursor_counterexample:
  "next_sess_idx (snd (h2_peer_send_request (Pair 0) 0 peer3)) = 2
   \<and> fst (h2_peer_send_request (Pair 0) 0 peer3) = 0
   \<and> next_sess_idx (snd (h2_peer_send_request (Pair 0) 0 (peer3\<lparr>peer_is_terminated := 1\<rparr>))) = 0
   \<and> (next_sess_idx peer3 + 1) mod sess_num peer3 = 1"
  by code_simp

text \<open>Claim C7, amended. On a peer with \<open>N > 0\<close> slots that is not terminating, the call
  sets the cursor to \<open>(start + i + 1) mod N\<close>, where \<open>i\<close> is the number of slots the
  search passed over before it stopped (\<open>i = N\<close> when it ran through all slots, which is
  the case whenever no session is found). So the cursor advances by exactly one when the
  slot at the cursor takes the request (\<open>i = 0\<close>) and when the search ran through all
  slots; \<open>i = 0\<close> holds exactly when the slot at the cursor is usable. On a terminating
  peer the call returns \<open>- 1\<close> and changes nothing.\<close>

theorem send_request_cursor:
  assumes "0 < sess_num peer" and "0 \<le> next_sess_idx peer"
  shows "(peer_is_terminated peer \<noteq> 0 \<longrightarrow> h2_peer_send_request send_req ng peer = (- 1, peer))
       \<and> (peer_is_terminated peer = 0 \<longrightarrow>
            (case probe_loop ng (sess_num peer) (next_sess_idx peer) 0 peer None of
               (peer1, i, sv) \<Rightarrow>
                 0 \<le> i \<and> i \<le> sess_num peer
                 \<and> next_sess_idx (snd (h2_peer_send_request send_req ng peer))
                     = (next_sess_idx peer + i + 1) mod sess_num peer
                 \<and> (sv = None \<longrightarrow> i = sess_num peer)
                 \<and> ((i = 0) = slot_usable peer (nat (next_sess_idx peer mod sess_num peer)))
                 \<and> (i = 0 \<or> i = sess_num peer \<longrightarrow>
                      next_sess_idx (snd (h2_peer_send_request send_req ng peer))
                        = (next_sess_idx peer + 1) mod sess_num peer)))"
proof -
  obtain peer1 i sv where
    p: "probe_loop ng (sess_num peer) (next_sess_idx peer) 0 peer None = (peer1, i, sv)"
    by (metis prod.exhaust)
  from probe_loop_exit[OF p] assms(1)
  have i: "0 \<le> i" "i = sess_num peer \<or> (i < sess_num peer \<and> sv \<noteq> None)" by simp_all
  have r: "c_rem (next_sess_idx peer + i + 1) (sess_num peer)
             = (next_sess_idx peer + i + 1) mod sess_num peer"
    using assms i(1) by (simp add: c_rem_nonneg)
  have nxt: "peer_is_terminated peer = 0 \<Longrightarrow>
      next_sess_idx (snd (h2_peer_send_request send_req ng peer))
        = (next_sess_idx peer + i + 1) mod sess_num peer"
    using r by (simp add: h2_peer_send_request_def Let_def p split: option.splits prod.splits)
  have u: "(i = 0) = slot_usable peer (nat (next_sess_idx peer mod sess_num peer))"
    using probe_loop_first[OF assms(1) p] assms by (simp add: c_rem_nonneg)
  have one: "i = 0 \<or> i = sess_num peer \<Longrightarrow>
      (next_sess_idx peer + i + 1) mod sess_num peer = (next_sess_idx peer + 1) mod sess_num peer"
  proof -
    have "(next_sess_idx peer + sess_num peer + 1) mod sess_num peer
            = (next_sess_idx peer + 1 + sess_num peer) mod sess_num peer"
      by (simp add: add.commute add.left_commute)
    also have "\<dots> = (next_sess_idx peer + 1) mod sess_num peer"
      by (rule mod_add_self2)
    finally show "i = 0 \<or> i = sess_num peer \<Longrightarrow>
      (next_sess_idx peer + i + 1) mod sess_num peer = (next_sess_idx peer + 1) mod sess_num peer"
      by auto
  qed
  show ?thesis
    using i u nxt one by (auto simp: p h2_peer_send_request_def)
qed

theorem send_request_cursor_witness:
  "0 < sess_num peer3 \<and> 0 \<le> next_sess_idx peer3 \<and> peer_is_terminated peer3 = 0
   \<and> probe_loop 0 3 0 0 peer3 None = (peer3, 1, Some 1)
   \<and> next_sess_idx (snd (h2_peer_send_request (Pair 0) 0 peer3)) = 2"
proof -
  have h: "0 < sess_num peer3" "0 \<le> next_sess_idx peer3" "peer_is_terminated peer3 = 0"
    by (simp_all add: peer3_def)
  have p: "probe_loop 0 3 0 0 peer3 None = (peer3, 1, Some 1)"
    by code_simp
  from send_request_cursor[OF h(1,2), of "Pair 0" 0] h p show ?thesis
    by (simp add: peer3_def)
qed

text \<open>Claim C8. When the search probes a slot that holds a session and is active, the
  slot is marked inactive, the active count is decremented, the session is terminated
  with \<open>wait_rsp = 1\<close> and the search goes on with the next slot, exactly when
  \<open>req_thr > 0\<close>, the session's \<open>req_cnt\<close> is at least \<open>req_thr\<close> and the active
  count is at least \<open>N\<close>; otherwise the search stops at that slot, and the request is
  sent on the session of the slot at which the search stopped.\<close>

theorem rotation_exactly_when:
  assumes "i < n" and "si = nat (c_rem (nsi + i) n)"
    and "peer_sess peer ! si = Some s" and "act_sess peer ! si"
  shows "probe_loop ng n nsi i peer sv =
           (if req_thr_for_reconn peer > 0 \<and> req_cnt s \<ge> req_thr_for_reconn peer
               \<and> act_sess_num peer \<ge> sess_num peer
            then probe_loop ng n nsi (i + 1)
                   (peer\<lparr>act_sess := (act_sess peer)[si := False],
                         act_sess_num := act_sess_num peer - 1,
                         peer_sess := (peer_sess peer)[si := snd (h2_sess_terminate ng (Some s) 1)]\<rparr>)
                   None
            else (peer, i, Some si))
       \<and> (\<forall>peer1 j k send_req.
             peer_is_terminated peer = 0 \<longrightarrow>
             probe_loop ng (sess_num peer) (next_sess_idx peer) 0 peer None = (peer1, j, Some k) \<longrightarrow>
             h2_peer_send_request send_req ng peer =
               (fst (send_req (the (peer_sess peer1 ! k))),
                peer1\<lparr>next_sess_idx := c_rem (next_sess_idx peer + j + 1) (sess_num peer),
                       peer_sess := (peer_sess peer1)
                                      [k := Some (snd (send_req (the (peer_sess peer1 ! k))))]\<rparr>))"
proof -
  have r: "rotate_out ng si peer =
             peer\<lparr>act_sess := (act_sess peer)[si := False],
                  act_sess_num := act_sess_num peer - 1,
                  peer_sess := (peer_sess peer)[si := snd (h2_sess_terminate ng (Some s) 1)]\<rparr>"
    using assms(3,4) by (simp add: rotate_out_def Let_def)
  have "probe_loop ng n nsi i peer sv =
           (if rotation_due peer si
            then probe_loop ng n nsi (i + 1) (rotate_out ng si peer) None
            else (peer, i, Some si))"
    using assms by (simp add: probe_loop_step Let_def)
  then have one: "probe_loop ng n nsi i peer sv =
           (if req_thr_for_reconn peer > 0 \<and> req_cnt s \<ge> req_thr_for_reconn peer
               \<and> act_sess_num peer \<ge> sess_num peer
            then probe_loop ng n nsi (i + 1)
                   (peer\<lparr>act_sess := (act_sess peer)[si := False],
                         act_sess_num := act_sess_num peer - 1,
                         peer_sess := (peer_sess peer)[si := snd (h2_sess_terminate ng (Some s) 1)]\<rparr>)
                   None
            else (peer, i, Some si))"
    using assms(3) by (simp add: r rotation_due_def)
  have two: "h2_peer_send_request send_req ng peer =
               (fst (send_req (the (peer_sess peer1 ! k))),
                peer1\<lparr>next_sess_idx := c_rem (next_sess_idx peer + j + 1) (sess_num peer),
                       peer_sess := (peer_sess peer1)
                                      [k := Some (snd (send_req (the (peer_sess peer1 ! k))))]\<rparr>)"
    if "peer_is_terminated peer = 0"
      "probe_loop ng (sess_num peer) (next_sess_idx peer) 0 peer None = (peer1, j, Some k)"
    for peer1 j k send_req
    using that by (simp add: h2_peer_send_request_def Let_def split: prod.splits)
  from one two show ?thesis by blast
qed

text \<open>Two slots, threshold 10; the session in slot 0 has sent 10 requests.\<close>

definition peer_rot :: h2_peer where
  "peer_rot =
     \<lparr>sess_num = 2, req_thr_for_reconn = 10, peer_settings = h2_settings_init,
      peer_sess = [Some ((sess_zero H2_HTTP_V2)\<lparr>req_cnt := 10, rsp_cnt := 9\<rparr>),
                   Some (sess_zero H2_HTTP_V2)],
      act_sess = [True, True], act_sess_num = 2, next_sess_idx = 0,
      peer_is_terminated = 0\<rparr>"

theorem rotation_exactly_when_witness:
  "(0::int) < 2 \<and> (0::nat) = nat (c_rem (0 + 0) 2)
   \<and> peer_sess peer_rot ! 0 = Some ((sess_zero H2_HTTP_V2)\<lparr>req_cnt := 10, rsp_cnt := 9\<rparr>)
   \<and> act_sess peer_rot ! 0
   \<and> probe_loop 0 2 0 0 peer_rot None =
       (peer_rot\<lparr>act_sess := [False, True], act_sess_num := 1,
                 peer_sess := [Some ((sess_zero H2_HTTP_V2)
                                       \<lparr>req_cnt := 10, rsp_cnt := 9, is_terminated := 2\<rparr>),
                               Some (sess_zero H2_HTTP_V2)]\<rparr>, 1, Some 1)"
proof -
  have h: "(0::int) < 2" "(0::nat) = nat (c_rem (0 + 0) 2)"
    "peer_sess peer_rot ! 0 = Some ((sess_zero H2_HTTP_V2)\<lparr>req_cnt := 10, rsp_cnt := 9\<rparr>)"
    "act_sess peer_rot ! 0"
    by (simp_all add: peer_rot_def c_rem_def)
  let ?p1 = "peer_rot\<lparr>act_sess := [False, True], act_sess_num := 1,
                 peer_sess := [Some ((sess_zero H2_HTTP_V2)
                                       \<lparr>req_cnt := 10, rsp_cnt := 9, is_terminated := 2\<rparr>),
                               Some (sess_zero H2_HTTP_V2)]\<rparr>"
  have n: "probe_loop 0 2 0 (0 + 1) ?p1 None = (?p1, 1, Some 1)"
    by code_simp
  from rotation_exactly_when[OF h, of 0 None] n h show ?thesis
    by (simp add: peer_rot_def h2_sess_terminate_def sess_zero_def)
qed

subsection \<open>Single-session peers\<close>

lemma peer_connect_sess_thr [simp]:
  "req_thr_for_reconn (peer_connect_sess conn k peer) = req_thr_for_reconn peer"
  "sess_num (peer_connect_sess conn k peer) = sess_num peer"
  by (simp_all add: peer_connect_sess_def Let_def split: option.splits)

lemma fold_connect_thr:
  "req_thr_for_reconn (fold (peer_connect_sess conn) ks peer) = req_thr_for_reconn peer"
  by (induction ks arbitrary: peer) simp_all

lemma send_request_thr:
  "req_thr_for_reconn (snd (h2_peer_send_request send_req ng peer)) = req_thr_for_reconn peer"
proof (cases "probe_loop ng (sess_num peer) (next_sess_idx peer) 0 peer None")
  case (fields peer1 i sv)
  from probe_loop_fields[OF this] have "req_thr_for_reconn peer1 = req_thr_for_reconn peer"
    by simp
  with fields show ?thesis
    by (simp add: h2_peer_send_request_def Let_def split: option.splits prod.splits)
qed

lemma send_request_no_thr:
  assumes "req_thr_for_reconn peer \<le> 0"
  shows "act_sess (snd (h2_peer_send_request send_req ng peer)) = act_sess peer
       \<and> act_sess_num (snd (h2_peer_send_request send_req ng peer)) = act_sess_num peer"
proof (cases "probe_loop ng (sess_num peer) (next_sess_idx peer) 0 peer None")
  case (fields peer1 i sv)
  from probe_loop_no_thr[OF this assms] have "peer1 = peer" .
  with fields show ?thesis
    by (simp add: h2_peer_send_request_def Let_def split: option.splits prod.splits)
qed

text \<open>Claim C10. A peer constructed with \<open>sess_num = 1\<close> has rotation threshold 0,
  whatever threshold was requested. With threshold 0 the search of a request never marks
  a slot inactive and never terminates a session (it leaves the peer as it is), a request
  changes neither the active flags nor the active count, and the threshold stays 0.\<close>

theorem single_session_no_rotation:
  assumes "h2_peer_connect conn 1 req_thr settings = Some peer"
  shows "req_thr_for_reconn peer = 0
       \<and> fst (probe_loop ng (sess_num peer) (next_sess_idx peer) 0 peer None) = peer
       \<and> act_sess (snd (h2_peer_send_request send_req ng peer)) = act_sess peer
       \<and> act_sess_num (snd (h2_peer_send_request send_req ng peer)) = act_sess_num peer
       \<and> req_thr_for_reconn (snd (h2_peer_send_request send_req ng peer)) = 0"
proof -
  from assms have thr: "req_thr_for_reconn peer = 0"
    by (auto simp: h2_peer_connect_def Let_def fold_connect_thr split: if_splits)
  obtain peer1 i sv where
    p: "probe_loop ng (sess_num peer) (next_sess_idx peer) 0 peer None = (peer1, i, sv)"
    by (metis prod.exhaust)
  from probe_loop_no_thr[OF p] thr have "peer1 = peer" by simp
  with p thr send_request_no_thr[of peer send_req ng] send_request_thr[of send_req ng peer]
  show ?thesis by simp
qed

theorem single_session_no_rotation_witness:
  "h2_peer_connect [0 \<mapsto> (sess_zero H2_HTTP_V2)\<lparr>req_cnt := 7\<rparr>] 1 5 None
     = Some \<lparr>sess_num = 1, req_thr_for_reconn = 0, peer_settings = h2_settings_init,
             peer_sess = [Some ((sess_zero H2_HTTP_V2)\<lparr>req_cnt := 7\<rparr>)],
             act_sess = [True], act_sess_num = 1, next_sess_idx = 0, peer_is_terminated = 0\<rparr>
   \<and> act_sess (snd (h2_peer_send_request (Pair 0) 0
         \<lparr>sess_num = 1, req_thr_for_reconn = 0, peer_settings = h2_settings_init,
          peer_sess = [Some ((sess_zero H2_HTTP_V2)\<lparr>req_cnt := 7\<rparr>)],
          act_sess = [True], act_sess_num = 1, next_sess_idx = 0, peer_is_terminated = 0\<rparr>))
     = [True]"
proof -
  have h: "h2_peer_connect [0 \<mapsto> (sess_zero H2_HTTP_V2)\<lparr>req_cnt := 7\<rparr>] 1 5 None
     = Some \<lparr>sess_num = 1, req_thr_for_reconn = 0, peer_settings = h2_settings_init,
             peer_sess = [Some ((sess_zero H2_HTTP_V2)\<lparr>req_cnt := 7\<rparr>)],
             act_sess = [True], act_sess_num = 1, next_sess_idx = 0, peer_is_terminated = 0\<rparr>"
    by (simp add: h2_peer_connect_def peer_connect_sess_def Let_def)
  from single_session_no_rotation[OF h, of 0 "Pair 0"] h show ?thesis by simp
qed

section \<open>SETTINGS submission\<close>

text \<open>\<^verbatim>\<open>h2_sess_send\<close>: the send step is repeated while it returns a positive value. The
  outcomes of the writes are a script, one pair per send step; when the script is used up
  the model has no answer.\<close>

fun h2_sess_send :: "h2_build \<Rightarrow> (io_res \<times> io_res) list \<Rightarrow> h2_sess \<Rightarrow> (int \<times> h2_sess) option" where
  "h2_sess_send cfg [] sess = None"
| "h2_sess_send cfg ((io1, io2) # ios) sess =
     (case (if http_ver sess = H2_HTTP_V2 then h2_sess_send_once_v2 cfg io1 io2 sess
            else h2_sess_send_once_v1_1 cfg io1 io2 sess) of
        (r, sess1) \<Rightarrow> if r > 0 then h2_sess_send cfg ios sess1 else Some (r, sess1))"

text \<open>The entries \<^verbatim>\<open>iv[0..iv_num)\<close> that \<^verbatim>\<open>h2_sess_send_settings\<close> builds, in order.\<close>

definition settings_iv :: "h2_settings option \<Rightarrow> (settings_id \<times> int) list" where
  "settings_iv settings =
     (case settings of
        None \<Rightarrow> []
      | Some st \<Rightarrow>
          (if header_table_size st \<ge> 0
           then [(NGHTTP2_SETTINGS_HEADER_TABLE_SIZE, header_table_size st)] else []) @
          (if enable_push st \<ge> 0
           then [(NGHTTP2_SETTINGS_ENABLE_PUSH, enable_push st)] else []) @
          (if max_concurrent_streams st \<ge> 0
           then [(NGHTTP2_SETTINGS_MAX_CONCURRENT_STREAMS, max_concurrent_streams st)] else []) @
          (if initial_window_size st \<ge> 0
           then [(NGHTTP2_SETTINGS_INITIAL_WINDOW_SIZE, initial_window_size st)] else []) @
          (if max_frame_size st \<ge> 0
           then [(NGHTTP2_SETTINGS_MAX_FRAME_SIZE, max_frame_size st)] else []) @
          (if max_header_list_size st \<ge> 0
           then [(NGHTTP2_SETTINGS_MAX_HEADER_LIST_SIZE, max_header_list_size st)] else []) @
          (if enable_connect_protocol st \<ge> 0
           then [(NGHTTP2_SETTINGS_ENABLE_CONNECT_PROTOCOL, enable_connect_protocol st)] else []))"

text \<open>\<open>submit_ret\<close> is the value \<^verbatim>\<open>nghttp2_submit_settings\<close> returns.\<close>

definition h2_sess_send_settings ::
  "h2_build \<Rightarrow> (io_res \<times> io_res) list \<Rightarrow> int \<Rightarrow> h2_sess \<Rightarrow> h2_settings option
     \<Rightarrow> (int \<times> h2_sess) option" where
  "h2_sess_send_settings cfg ios submit_ret sess settings =
     (if http_ver sess \<noteq> H2_HTTP_V2 then Some (0, sess)
      else
        (let sess1 = add_effect (Ng_submit_settings (settings_iv settings)) sess
         in if submit_ret \<noteq> 0 then Some (- 1, sess1)
            else h2_sess_send cfg ios sess1))"

text \<open>The field of the settings that belongs to a SETTINGS identifier.\<close>

fun settings_field :: "settings_id \<Rightarrow> h2_settings \<Rightarrow> int" where
  "settings_field NGHTTP2_SETTINGS_HEADER_TABLE_SIZE st = header_table_size st"
| "settings_field NGHTTP2_SETTINGS_ENABLE_PUSH st = enable_push st"
| "settings_field NGHTTP2_SETTINGS_MAX_CONCURRENT_STREAMS st = max_concurrent_streams st"
| "settings_field NGHTTP2_SETTINGS_INITIAL_WINDOW_SIZE st = initial_window_size st"
| "settings_field NGHTTP2_SETTINGS_MAX_FRAME_SIZE st = max_frame_size st"
| "settings_field NGHTTP2_SETTINGS_MAX_HEADER_LIST_SIZE st = max_header_list_size st"
| "settings_field NGHTTP2_SETTINGS_ENABLE_CONNECT_PROTOCOL st = enable_connect_protocol st"

lemma settings_iv_mem:
  "(sid, v) \<in> set (settings_iv (Some st)) \<longleftrightarrow> settings_field sid st = v \<and> 0 \<le> v"
  by (cases sid) (auto simp: settings_iv_def)

text \<open>Claim C9. On an HTTP/2 session the entries submitted to the codec are those of
  \<open>settings_iv\<close>: each of the seven fields is among them, with its value, if and only if
  the value is not negative, so a field set to \<open>- 1\<close> is left out (and the initial
  settings, all \<open>- 1\<close>, submit an empty list). On a session of another protocol version
  nothing is submitted: the call returns 0 and leaves the session as it is.\<close>

theorem send_settings_fields:
  "(http_ver sess \<noteq> H2_HTTP_V2 \<longrightarrow>
      h2_sess_send_settings cfg ios submit_ret sess settings = Some (0, sess))
   \<and> (http_ver sess = H2_HTTP_V2 \<longrightarrow>
        h2_sess_send_settings cfg ios submit_ret sess settings =
          (if submit_ret \<noteq> 0
           then Some (- 1, sess\<lparr>effects := effects sess @ [Ng_submit_settings (settings_iv settings)]\<rparr>)
           else h2_sess_send cfg ios
                  (sess\<lparr>effects := effects sess @ [Ng_submit_settings (settings_iv settings)]\<rparr>)))
   \<and> ((sid, v) \<in> set (settings_iv (Some st)) \<longleftrightarrow> settings_field sid st = v \<and> 0 \<le> v)
   \<and> (settings_field sid st = - 1 \<longrightarrow> sid \<notin> fst ` set (settings_iv (Some st)))
   \<and> settings_iv (Some h2_settings_init) = []
   \<and> settings_iv None = []"
proof -
  have "sid \<notin> fst ` set (settings_iv (Some st))" if "settings_field sid st = - 1"
  proof
    assume "sid \<in> fst ` set (settings_iv (Some st))"
    then obtain v where "(sid, v) \<in> set (settings_iv (Some st))" by auto
    with settings_iv_mem[of sid v st] that show False by auto
  qed
  then show ?thesis
    by (simp add: h2_sess_send_settings_def add_effect_def Let_def settings_iv_mem)
       (simp add: settings_iv_def h2_settings_init_def)
qed

theorem send_settings_fields_witness:
  "http_ver (sess_zero H2_HTTP_V1_1) \<noteq> H2_HTTP_V2
   \<and> h2_sess_send_settings \<lparr>EPOLL_MODE = False, H2_WR_BUF_SIZE = 16384, sizeof_merge_data = 16384\<rparr> [] 0 (sess_zero H2_HTTP_V1_1) (Some h2_settings_init)
       = Some (0, sess_zero H2_HTTP_V1_1)
   \<and> http_ver (sess_zero H2_HTTP_V2) = H2_HTTP_V2
   \<and> h2_sess_send_settings \<lparr>EPOLL_MODE = False, H2_WR_BUF_SIZE = 16384, sizeof_merge_data = 16384\<rparr> [] 1 (sess_zero H2_HTTP_V2)
         (Some (h2_settings_init\<lparr>enable_push := 0, max_frame_size := 16384\<rparr>))
       = Some (- 1, (sess_zero H2_HTTP_V2)
                      \<lparr>effects := [Ng_submit_settings [(NGHTTP2_SETTINGS_ENABLE_PUSH, 0),
                                                         (NGHTTP2_SETTINGS_MAX_FRAME_SIZE, 16384)]]\<rparr>)"
  using send_settings_fields[of "sess_zero H2_HTTP_V1_1" "\<lparr>EPOLL_MODE = False, H2_WR_BUF_SIZE = 16384, sizeof_merge_data = 16384\<rparr>" "[]" 0 "Some h2_settings_init"]
    send_settings_fields[of "sess_zero H2_HTTP_V2" "\<lparr>EPOLL_MODE = False, H2_WR_BUF_SIZE = 16384, sizeof_merge_data = 16384\<rparr>" "[]" 1
      "Some (h2_settings_init\<lparr>enable_push := 0, max_frame_size := 16384\<rparr>)"]
  by (simp add: sess_zero_def settings_iv_def h2_settings_init_def)

end
